theory Spec2Isabelle
  imports Main "HOL-Library.Sublist"
begin

section \<open>Compiled-template cache (utils/template-cache.ts)\<close>

text \<open>
  A compiled template is a function object made by \<open>handlebars.compile\<close>. Two things
  about it matter here: which call of \<open>compile\<close> made it (its identity, a serial number)
  and the source text it was compiled from (which fixes what it renders).
\<close>

record 's delegate =
  serial :: nat
  source :: 's

record 's CompiledTemplate =
  template :: "'s delegate"
  compiledAt :: int
  lastUsed :: int
  useCount :: nat

text \<open>
  The cache is a JavaScript \<open>Map\<close>: keys are unique and entries keep their order of
  insertion, which is the order \<open>Array.from(cache.entries())\<close> lists them in.
\<close>

type_synonym 's entries = "(string \<times> 's CompiledTemplate) list"

record 's TemplateCache =
  cache :: "'s entries"
  compiled :: nat  \<comment> \<open>how many delegates \<open>handlebars.compile\<close> has made so far\<close>

definition MAX_CACHE_SIZE :: nat where
  "MAX_CACHE_SIZE = 10"

definition CACHE_TTL :: int where
  "CACHE_TTL = 5 * 60 * 1000"

fun map_set :: "string \<Rightarrow> 'v \<Rightarrow> (string \<times> 'v) list \<Rightarrow> (string \<times> 'v) list" where
  "map_set k v [] = [(k, v)]"
| "map_set k v ((k', v') # rest) =
     (if k' = k then (k, v) # rest else (k', v') # map_set k v rest)"

definition map_delete :: "string \<Rightarrow> (string \<times> 'v) list \<Rightarrow> (string \<times> 'v) list" where
  "map_delete k m = filter (\<lambda>(k', _). k' \<noteq> k) m"

definition cleanupCache :: "int \<Rightarrow> 's entries \<Rightarrow> 's entries" where
  "cleanupCache now m =
     (if length m \<le> MAX_CACHE_SIZE then m
      else
        let expiredKeys = map fst (filter (\<lambda>(_, cached). now - compiledAt cached \<ge> CACHE_TTL) m);
            m1 = fold map_delete expiredKeys m
        in if length m1 > MAX_CACHE_SIZE then
             let remainingEntries = sort_key (\<lambda>(_, a). lastUsed a) m1;
                 toRemove = take (length remainingEntries - MAX_CACHE_SIZE) remainingEntries
             in fold map_delete (map fst toRemove) m1
           else m1)"

text \<open>
  \<open>getTemplate\<close> reads the clock once on entry (\<open>now\<close>); \<open>cleanupCache\<close> reads it again
  (\<open>now'\<close>). The result is the delegate handed to the caller and the cache afterwards.
\<close>

definition getTemplate ::
  "int \<Rightarrow> int \<Rightarrow> string \<Rightarrow> 's \<Rightarrow> 's TemplateCache \<Rightarrow> 's delegate \<times> 's TemplateCache" where
  "getTemplate now now' key templateSource tc =
     (case map_of (cache tc) key of
        Some cached \<Rightarrow>
          if now - compiledAt cached < CACHE_TTL then
            (template cached,
             tc\<lparr>cache := map_set key (cached\<lparr>lastUsed := now, useCount := useCount cached + 1\<rparr>) (cache tc)\<rparr>)
          else
            (let t = \<lparr>serial = compiled tc, source = templateSource\<rparr>
             in (t, \<lparr>cache = cleanupCache now'
                          (map_set key \<lparr>template = t, compiledAt = now, lastUsed = now, useCount = 1\<rparr> (cache tc)),
                     compiled = compiled tc + 1\<rparr>))
      | None \<Rightarrow>
          (let t = \<lparr>serial = compiled tc, source = templateSource\<rparr>
           in (t, \<lparr>cache = cleanupCache now'
                        (map_set key \<lparr>template = t, compiledAt = now, lastUsed = now, useCount = 1\<rparr> (cache tc)),
                   compiled = compiled tc + 1\<rparr>)))"

definition clear :: "'s TemplateCache \<Rightarrow> 's TemplateCache" where
  "clear tc = tc\<lparr>cache := []\<rparr>"

definition templateCache :: "'s TemplateCache" where
  "templateCache = \<lparr>cache = [], compiled = 0\<rparr>"

subsection \<open>Reachable cache states\<close>

text \<open>
  The states the cache can be in, each with the record of when every delegate made so far
  was compiled (\<open>born\<close>, by serial number). The program keeps no such record; it is
  what "compiled at" means for a delegate handed out later.
\<close>

inductive reach :: "'s TemplateCache \<Rightarrow> (nat \<Rightarrow> int option) \<Rightarrow> bool" where
  reach_init: "reach templateCache (\<lambda>_. None)"
| reach_get: "reach tc born \<Longrightarrow> getTemplate now now' key src tc = (t, tc') \<Longrightarrow>
     reach tc' (if compiled tc' = compiled tc then born else born(compiled tc := Some now))"
| reach_clear: "reach tc born \<Longrightarrow> reach (clear tc) born"

definition cache_inv :: "'s TemplateCache \<Rightarrow> (nat \<Rightarrow> int option) \<Rightarrow> bool" where
  "cache_inv tc born \<longleftrightarrow>
     (\<forall>(k, e) \<in> set (cache tc). born (serial (template e)) = Some (compiledAt e)) \<and>
     (\<forall>n. compiled tc \<le> n \<longrightarrow> born n = None)"

lemma set_map_set: "set (map_set k v m) \<subseteq> insert (k, v) (set m)"
  by (induction m) (auto split: if_splits)

lemma set_map_delete: "set (map_delete k m) \<subseteq> set m"
  by (auto simp: map_delete_def)

lemma set_fold_map_delete: "set (fold map_delete ks m) \<subseteq> set m"
proof (induction ks arbitrary: m)
  case Nil
  show ?case by simp
next
  case (Cons k ks)
  have "set (fold map_delete ks (map_delete k m)) \<subseteq> set (map_delete k m)"
    by (rule Cons.IH)
  also have "\<dots> \<subseteq> set m" by (rule set_map_delete)
  finally show ?case by simp
qed

lemma set_cleanupCache: "set (cleanupCache now m) \<subseteq> set m"
proof -
  have a: "\<And>ks. set (fold map_delete ks m) \<subseteq> set m" by (rule set_fold_map_delete)
  have b: "\<And>ks js. set (fold map_delete js (fold map_delete ks m)) \<subseteq> set m"
    using set_fold_map_delete a by (meson subset_trans)
  show ?thesis
    unfolding cleanupCache_def Let_def using a b by (simp split: if_splits)
qed

lemma getTemplate_cases:
  assumes "getTemplate now now' key src tc = (t, tc')"
  shows "(\<exists>e. map_of (cache tc) key = Some e \<and> now - compiledAt e < CACHE_TTL \<and> t = template e \<and>
            compiled tc' = compiled tc \<and>
            cache tc' = map_set key (e\<lparr>lastUsed := now, useCount := useCount e + 1\<rparr>) (cache tc))
       \<or> ((\<forall>e. map_of (cache tc) key = Some e \<longrightarrow> now - compiledAt e \<ge> CACHE_TTL) \<and>
           t = \<lparr>serial = compiled tc, source = src\<rparr> \<and> compiled tc' = compiled tc + 1 \<and>
           cache tc' = cleanupCache now'
             (map_set key \<lparr>template = t, compiledAt = now, lastUsed = now, useCount = 1\<rparr> (cache tc)))"
  using assms unfolding getTemplate_def Let_def
  by (auto split: option.splits if_splits)

lemma cache_inv_get:
  assumes inv: "cache_inv tc born" and g: "getTemplate now now' key src tc = (t, tc')"
  shows "cache_inv tc' (if compiled tc' = compiled tc then born else born(compiled tc := Some now))"
  using getTemplate_cases [OF g]
proof (elim disjE exE conjE)
  fix e
  assume e: "map_of (cache tc) key = Some e" and c: "compiled tc' = compiled tc"
    and m: "cache tc' = map_set key (e\<lparr>lastUsed := now, useCount := useCount e + 1\<rparr>) (cache tc)"
  have "(key, e) \<in> set (cache tc)" using e by (rule map_of_SomeD)
  then have "born (serial (template e)) = Some (compiledAt e)"
    using inv by (auto simp: cache_inv_def)
  then show ?thesis
    using inv c m set_map_set [of key "e\<lparr>lastUsed := now, useCount := useCount e + 1\<rparr>" "cache tc"]
    by (fastforce simp: cache_inv_def)
next
  assume t: "t = \<lparr>serial = compiled tc, source = src\<rparr>" and c: "compiled tc' = compiled tc + 1"
    and m: "cache tc' = cleanupCache now'
             (map_set key \<lparr>template = t, compiledAt = now, lastUsed = now, useCount = 1\<rparr> (cache tc))"
  let ?new = "\<lparr>template = t, compiledAt = now, lastUsed = now, useCount = 1\<rparr>"
  have sub: "set (cache tc') \<subseteq> insert (key, ?new) (set (cache tc))"
    using m set_cleanupCache [of now' "map_set key ?new (cache tc)"] set_map_set [of key ?new "cache tc"]
    by auto
  have old: "\<And>k e. (k, e) \<in> set (cache tc) \<Longrightarrow>
      born (serial (template e)) = Some (compiledAt e) \<and> serial (template e) \<noteq> compiled tc"
    using inv by (fastforce simp: cache_inv_def)
  show ?thesis
    unfolding cache_inv_def
  proof (intro conjI ballI allI impI)
    fix x assume "x \<in> set (cache tc')"
    then have "x = (key, ?new) \<or> x \<in> set (cache tc)" using sub by auto
    then show "case x of (k, e) \<Rightarrow>
        (if compiled tc' = compiled tc then born else born(compiled tc := Some now))
          (serial (template e)) = Some (compiledAt e)"
      using old c t by (cases x) auto
  next
    fix n assume "compiled tc' \<le> n"
    then show "(if compiled tc' = compiled tc then born else born(compiled tc := Some now)) n = None"
      using inv c by (auto simp: cache_inv_def)
  qed
qed

lemma reach_inv: "reach tc born \<Longrightarrow> cache_inv tc born"
proof (induction rule: reach.induct)
  case reach_init
  show ?case by (simp add: cache_inv_def templateCache_def)
next
  case (reach_get tc born now now' key src t tc')
  then show ?case by (simp only: cache_inv_get)
next
  case (reach_clear tc born)
  then show ?case by (simp add: cache_inv_def clear_def)
qed

text \<open>
  C9. In every reachable state of the cache, the delegate that \<open>getTemplate\<close> returns is
  either compiled by this very call, or it was compiled less than \<open>CACHE_TTL\<close> (five
  minutes) before the clock reading of the call. When the entry under the key has reached
  the age \<open>CACHE_TTL\<close>, the delegate returned is a new one, compiled by this call, whatever
  the entry's position in the least-recently-used order.
\<close>

theorem getTemplate_ttl:
  assumes "reach tc born" and "getTemplate now now' key src tc = (t, tc')"
  shows "((serial t = compiled tc \<and> born (serial t) = None \<and> compiled tc' = compiled tc + 1)
          \<or> (\<exists>c. born (serial t) = Some c \<and> now - c < CACHE_TTL \<and> compiled tc' = compiled tc))
       \<and> (\<forall>e. map_of (cache tc) key = Some e \<and> now - compiledAt e \<ge> CACHE_TTL \<longrightarrow>
             serial t = compiled tc \<and> born (serial t) = None \<and> compiled tc' = compiled tc + 1)"
proof -
  have inv: "cache_inv tc born" using assms(1) by (rule reach_inv)
  have fresh: "born (compiled tc) = None" using inv by (simp add: cache_inv_def)
  from getTemplate_cases [OF assms(2)] show ?thesis
  proof (elim disjE exE conjE)
    fix e
    assume e: "map_of (cache tc) key = Some e" and age: "now - compiledAt e < CACHE_TTL"
      and t: "t = template e" and c: "compiled tc' = compiled tc"
    have "(key, e) \<in> set (cache tc)" using e by (rule map_of_SomeD)
    then have "born (serial t) = Some (compiledAt e)"
      using inv t by (auto simp: cache_inv_def)
    then show ?thesis using age c e by auto
  next
    assume "\<forall>e. map_of (cache tc) key = Some e \<longrightarrow> now - compiledAt e \<ge> CACHE_TTL"
      and "t = \<lparr>serial = compiled tc, source = src\<rparr>" and "compiled tc' = compiled tc + 1"
    then show ?thesis using fresh by simp
  qed
qed

definition warm_cache :: "string TemplateCache" where
  "warm_cache = snd (getTemplate 0 0 ''default'' ''T'' templateCache)"

lemma warm_cache_eq:
  "getTemplate 0 0 ''default'' ''T'' templateCache =
     (\<lparr>serial = 0, source = ''T''\<rparr>,
      \<lparr>cache = [(''default'', \<lparr>template = \<lparr>serial = 0, source = ''T''\<rparr>, compiledAt = 0,
                                  lastUsed = 0, useCount = 1\<rparr>)], compiled = 1\<rparr>)"
  by (simp add: getTemplate_def templateCache_def cleanupCache_def MAX_CACHE_SIZE_def Let_def)

theorem getTemplate_ttl_witness:
  "reach warm_cache ((\<lambda>_. None)(0 := Some 0)) \<and>
   getTemplate 300000 300001 ''default'' ''T'' warm_cache =
     (\<lparr>serial = 1, source = ''T''\<rparr>,
      \<lparr>cache = [(''default'', \<lparr>template = \<lparr>serial = 1, source = ''T''\<rparr>, compiledAt = 300000,
                                  lastUsed = 300000, useCount = 1\<rparr>)], compiled = 2\<rparr>) \<and>
   map_of (cache warm_cache) ''default'' =
     Some \<lparr>template = \<lparr>serial = 0, source = ''T''\<rparr>, compiledAt = 0, lastUsed = 0, useCount = 1\<rparr> \<and>
   serial \<lparr>serial = 1, source = ''T''\<rparr> = compiled warm_cache"
proof -
  have w: "warm_cache = \<lparr>cache = [(''default'', \<lparr>template = \<lparr>serial = 0, source = ''T''\<rparr>,
             compiledAt = 0, lastUsed = 0, useCount = 1\<rparr>)], compiled = 1\<rparr>"
    by (simp add: warm_cache_def warm_cache_eq)
  have r: "reach warm_cache ((\<lambda>_. None)(0 := Some 0))"
    using reach_get [OF reach_init warm_cache_eq] by (simp add: w templateCache_def)
  have g: "getTemplate 300000 300001 ''default'' ''T'' warm_cache =
     (\<lparr>serial = 1, source = ''T''\<rparr>,
      \<lparr>cache = [(''default'', \<lparr>template = \<lparr>serial = 1, source = ''T''\<rparr>, compiledAt = 300000,
                                  lastUsed = 300000, useCount = 1\<rparr>)], compiled = 2\<rparr>)"
    by (simp add: w getTemplate_def cleanupCache_def MAX_CACHE_SIZE_def CACHE_TTL_def Let_def)
  show ?thesis using getTemplate_ttl [OF r g] r g by (simp add: w)
qed


section \<open>Browser pool (utils/browser-pool.ts)\<close>

text \<open>A thrown JavaScript error: its \<open>code\<close> property, when it has one, and its message.\<close>

datatype js_error = Error (code: "string option") (message: string)

subsection \<open>Playwright, as far as the pool uses it\<close>

text \<open>
  Browser processes, browsing contexts and pages are handles. A context belongs to the
  browser that made it and dies with it: once the browser is gone, \<open>newPage\<close> on one of
  its contexts rejects. The three \<open>_error\<close> fields say whether \<open>chromium.launch\<close>,
  \<open>context.close\<close> and \<open>browser.close\<close> reject, and with what.
\<close>

record playwright =
  live_browsers :: "nat list"
  open_contexts :: "(nat \<times> nat) list"  \<comment> \<open>context handle, owning browser\<close>
  open_pages :: "(nat \<times> nat) list"  \<comment> \<open>page handle, its context\<close>
  next_handle :: nat
  launch_error :: "js_error option"
  context_close_error :: "js_error option"
  browser_close_error :: "js_error option"

definition target_closed :: "string \<Rightarrow> js_error" where
  "target_closed api = Error None (api @ '': Target page, context or browser has been closed'')"

definition isConnected :: "nat \<Rightarrow> playwright \<Rightarrow> bool" where
  "isConnected b w \<longleftrightarrow> b \<in> set (live_browsers w)"

definition chromium_launch :: "playwright \<Rightarrow> (js_error + nat) \<times> playwright" where
  "chromium_launch w =
     (case launch_error w of
        Some e \<Rightarrow> (Inl e, w)
      | None \<Rightarrow> (Inr (next_handle w),
                 w\<lparr>live_browsers := next_handle w # live_browsers w, next_handle := next_handle w + 1\<rparr>))"

definition newContext :: "nat \<Rightarrow> playwright \<Rightarrow> (js_error + nat) \<times> playwright" where
  "newContext b w =
     (if isConnected b w
      then (Inr (next_handle w),
            w\<lparr>open_contexts := (next_handle w, b) # open_contexts w, next_handle := next_handle w + 1\<rparr>)
      else (Inl (target_closed ''browser.newContext''), w))"

definition context_usable :: "nat \<Rightarrow> playwright \<Rightarrow> bool" where
  "context_usable c w \<longleftrightarrow> list_ex (\<lambda>(c', b). c' = c \<and> isConnected b w) (open_contexts w)"

definition newPage :: "nat \<Rightarrow> playwright \<Rightarrow> (js_error + nat) \<times> playwright" where
  "newPage c w =
     (if context_usable c w
      then (Inr (next_handle w),
            w\<lparr>open_pages := (next_handle w, c) # open_pages w, next_handle := next_handle w + 1\<rparr>)
      else (Inl (target_closed ''browserContext.newPage''), w))"



text \<open>The browser process dies (is killed, crashes): it is no longer connected.\<close>

definition browser_dies :: "nat \<Rightarrow> playwright \<Rightarrow> playwright" where
  "browser_dies b w = w\<lparr>live_browsers := removeAll b (live_browsers w)\<rparr>"

subsection \<open>The pool\<close>

record BrowserPool =
  browser :: "nat option"
  browserContext :: "nat option"  \<comment> \<open>the field \<open>context\<close>\<close>
  isShuttingDown :: bool
  lastUsed :: int
  idleTimer :: "int option"  \<comment> \<open>when the pending idle timeout fires\<close>

definition IDLE_TIMEOUT :: int where
  "IDLE_TIMEOUT = 10000"

definition browserPool :: "int \<Rightarrow> BrowserPool" where
  "browserPool now = \<lparr>browser = None, browserContext = None, isShuttingDown = False, lastUsed = now, idleTimer = None\<rparr>"

definition createBrowser :: "BrowserPool \<Rightarrow> playwright \<Rightarrow> js_error option \<times> BrowserPool \<times> playwright" where
  "createBrowser pool w =
     (case chromium_launch w of
        (Inl e, w') \<Rightarrow> (Some e, pool, w')
      | (Inr b, w') \<Rightarrow> (None, pool\<lparr>browser := Some b\<rparr>, w'))"

definition createContext :: "BrowserPool \<Rightarrow> playwright \<Rightarrow> js_error option \<times> BrowserPool \<times> playwright" where
  "createContext pool w =
     (case browser pool of
        None \<Rightarrow> (Some (Error None ''Browser not available''), pool, w)
      | Some b \<Rightarrow>
          (case newContext b w of
             (Inl e, w') \<Rightarrow> (Some e, pool, w')
           | (Inr c, w') \<Rightarrow> (None, pool\<lparr>browserContext := Some c\<rparr>, w')))"

definition ensureBrowser :: "BrowserPool \<Rightarrow> playwright \<Rightarrow> js_error option \<times> BrowserPool \<times> playwright" where
  "ensureBrowser pool w =
     (case (if (case browser pool of None \<Rightarrow> True | Some b \<Rightarrow> \<not> isConnected b w)
            then createBrowser pool w else (None, pool, w)) of
        (Some e, pool', w') \<Rightarrow> (Some e, pool', w')
      | (None, pool', w') \<Rightarrow>
          if browserContext pool' = None then createContext pool' w' else (None, pool', w'))"

definition resetIdleTimer :: "int \<Rightarrow> BrowserPool \<Rightarrow> BrowserPool" where
  "resetIdleTimer now pool = pool\<lparr>idleTimer := Some (now + IDLE_TIMEOUT)\<rparr>"

text \<open>What the route handler installed on every page does with a request.\<close>

datatype route_action = Continue | Abort string

definition route_handler :: "string \<Rightarrow> string \<Rightarrow> route_action" where
  "route_handler url resourceType =
     (if resourceType \<in> set [''document'', ''stylesheet'', ''font''] then
        (if prefix ''file://'' url \<or> prefix ''data:'' url \<or> prefix ''blob:'' url
         then Continue else Abort ''internetdisconnected'')
      else Abort ''blockedbyclient'')"

text \<open>
  \<open>getBrowserPage\<close> at time \<open>now\<close>. On the page that \<open>newPage\<close> has just opened,
  \<open>setViewportSize\<close> and \<open>route\<close> are taken to succeed; they change nothing that is
  observed here.
\<close>

definition getBrowserPage ::
  "int \<Rightarrow> BrowserPool \<Rightarrow> playwright \<Rightarrow> (js_error + nat) \<times> BrowserPool \<times> playwright" where
  "getBrowserPage now pool w =
     (if isShuttingDown pool then (Inl (Error None ''Browser pool is shutting down''), pool, w)
      else
        (case ensureBrowser pool w of
           (Some e, pool1, w1) \<Rightarrow> (Inl e, pool1, w1)
         | (None, pool1, w1) \<Rightarrow>
             (let pool2 = resetIdleTimer now (pool1\<lparr>lastUsed := now\<rparr>)
              in case browserContext pool2 of
                   None \<Rightarrow> (Inl (Error None ''Browser context not available''), pool2, w1)
                 | Some c \<Rightarrow>
                     (case newPage c w1 of
                        (Inl e, w2) \<Rightarrow> (Inl e, pool2, w2)
                      | (Inr page, w2) \<Rightarrow> (Inr page, pool2, w2)))))"

text \<open>
  \<open>releasePage\<close> clears and closes the page; whatever goes wrong there is caught and
  logged, so it returns normally always.
\<close>

definition releasePage :: "nat \<Rightarrow> playwright \<Rightarrow> playwright" where
  "releasePage page w = w\<lparr>open_pages := filter (\<lambda>(p, _). p \<noteq> page) (open_pages w)\<rparr>"






definition fresh_playwright :: playwright where
  "fresh_playwright = \<lparr>live_browsers = [], open_contexts = [], open_pages = [], next_handle = 0,
     launch_error = None, context_close_error = None, browser_close_error = None\<rparr>"


subsection \<open>Acquisition after the browser process has died\<close>

lemmas pool_defs = getBrowserPage_def ensureBrowser_def createBrowser_def createContext_def
  chromium_launch_def newContext_def newPage_def context_usable_def isConnected_def
  resetIdleTimer_def target_closed_def

text \<open>The pool and the Playwright world after one acquisition at time 5.\<close>

definition warm_pool :: BrowserPool where
  "warm_pool = \<lparr>browser = Some 0, browserContext = Some 1, isShuttingDown = False,
     lastUsed = 5, idleTimer = Some 10005\<rparr>"

definition warm_playwright :: playwright where
  "warm_playwright = \<lparr>live_browsers = [0], open_contexts = [(1, 0)], open_pages = [(2, 1)],
     next_handle = 3, launch_error = None, context_close_error = None, browser_close_error = None\<rparr>"

lemma first_acquisition:
  "getBrowserPage 5 (browserPool 0) fresh_playwright = (Inr 2, warm_pool, warm_playwright)"
  by (simp add: pool_defs browserPool_def fresh_playwright_def warm_pool_def warm_playwright_def
      IDLE_TIMEOUT_def)

text \<open>
  Whenever the pool holds a browser that is no longer connected and a context made by
  that browser, \<open>ensureBrowser\<close> launches a new browser and keeps the old context (the
  field is not null, so \<open>createContext\<close> is skipped); \<open>newPage\<close> on the old context then
  rejects, and \<open>getBrowserPage\<close> throws.
\<close>

lemma getBrowserPage_stale_context:
  assumes "\<not> isShuttingDown pool" and "browser pool = Some b" and "browserContext pool = Some c"
    and "\<not> isConnected b w" and "\<forall>(c', b') \<in> set (open_contexts w). c' = c \<longrightarrow> b' = b"
    and "launch_error w = None" and "next_handle w \<noteq> b"
  shows "\<exists>pool' w'. getBrowserPage now pool w = (Inl (target_closed ''browserContext.newPage''), pool', w') \<and>
           browser pool' = Some (next_handle w) \<and> browserContext pool' = Some c"
proof -
  have "\<not> list_ex (\<lambda>(c', b'). c' = c \<and> (b' = next_handle w \<or> b' \<in> set (live_browsers w)))
          (open_contexts w)"
    using assms(4,5,7) by (auto simp: list_ex_iff isConnected_def)
  then show ?thesis
    using assms(1,2,3,4,6) by (simp add: pool_defs)
qed

text \<open>
  C4, evaluated. One acquisition from the empty pool gives page 2 on browser 0 and
  context 1. Browser 0 then dies. The next acquisition launches browser 3, keeps context 1
  of the dead browser 0, and fails with Playwright's error for a closed target: no page is
  returned and the context is not recreated.
\<close>

theorem getBrowserPage_after_browser_death:
  "getBrowserPage 5 (browserPool 0) fresh_playwright = (Inr 2, warm_pool, warm_playwright) \<and>
   fst (getBrowserPage 7 warm_pool (browser_dies 0 warm_playwright)) =
     Inl (Error None ''browserContext.newPage: Target page, context or browser has been closed'') \<and>
   browser (fst (snd (getBrowserPage 7 warm_pool (browser_dies 0 warm_playwright)))) = Some 3 \<and>
   browserContext (fst (snd (getBrowserPage 7 warm_pool (browser_dies 0 warm_playwright)))) = Some 1 \<and>
   \<not> context_usable 1 (snd (snd (getBrowserPage 7 warm_pool (browser_dies 0 warm_playwright))))"
  by (simp add: first_acquisition)
     (simp add: pool_defs browser_dies_def warm_pool_def warm_playwright_def)

subsection \<open>Shutdown\<close>










section \<open>Determinism normalizer (utils/deterministic-pdf.ts)\<close>

text \<open>
  The file is read with \<open>toString('binary')\<close> and written back with
  \<open>Buffer.from(_, 'binary')\<close>: one character per byte, so the text the regular
  expressions work on is the byte string itself.
\<close>

subsection \<open>The regular expressions\<close>

text \<open>
  All patterns have the shape \<open>key [^c]* c\<close> or \<open>key [^c]+ c\<close>: a literal key, a run of
  characters other than the closing character \<open>c\<close> (greedy, so up to the first \<open>c\<close>), and
  \<open>c\<close>. \<open>match_entry key c nonempty s\<close> matches the pattern at the start of \<open>s\<close> and gives
  the run and the text after the match.
\<close>

definition match_entry :: "string \<Rightarrow> char \<Rightarrow> bool \<Rightarrow> string \<Rightarrow> (string \<times> string) option" where
  "match_entry key c nonempty s =
     (if prefix key s then
        (let body = drop (length key) s;
             v = takeWhile (\<lambda>x. x \<noteq> c) body
         in case dropWhile (\<lambda>x. x \<noteq> c) body of
              [] \<Rightarrow> None
            | _ # rest \<Rightarrow> if nonempty \<and> v = [] then None else Some (v, rest))
      else None)"

lemma match_entry_shorter:
  assumes "match_entry key c ne s = Some (v, rest)"
  shows "length rest < length s"
proof -
  let ?body = "drop (length key) s"
  from assms obtain y where "dropWhile (\<lambda>x. x \<noteq> c) ?body = y # rest"
    by (auto simp: match_entry_def Let_def split: if_splits list.splits)
  then have "length rest < length (dropWhile (\<lambda>x. x \<noteq> c) ?body)" by simp
  also have "\<dots> \<le> length ?body" by (rule length_dropWhile_le)
  also have "\<dots> \<le> length s" by simp
  finally show ?thesis .
qed

text \<open>
  \<open>String.prototype.replace\<close> with a global pattern and a constant replacement: scan
  from the left; at a match, emit the replacement and go on after the match; otherwise
  copy one character.
\<close>

function replace_all :: "string \<Rightarrow> char \<Rightarrow> bool \<Rightarrow> string \<Rightarrow> string \<Rightarrow> string" where
  "replace_all key c ne rep [] = []"
| "replace_all key c ne rep (x # xs) =
     (case match_entry key c ne (x # xs) of
        Some (v, rest) \<Rightarrow> rep @ replace_all key c ne rep rest
      | None \<Rightarrow> x # replace_all key c ne rep xs)"
  by pat_completeness auto
termination
  by (relation "measure (\<lambda>(key, c, ne, rep, s). length s)")
     (auto dest: match_entry_shorter)

text \<open>A pattern without the \<open>g\<close> flag: the first match, with the text before and after it.\<close>

fun first_match :: "string \<Rightarrow> char \<Rightarrow> string \<Rightarrow> (string \<times> string \<times> string) option" where
  "first_match key c [] = None"
| "first_match key c (x # xs) =
     (case match_entry key c False (x # xs) of
        Some (v, rest) \<Rightarrow> Some ([], key @ v @ [c], rest)
      | None \<Rightarrow>
          (case first_match key c xs of
             Some (before, m, rest) \<Rightarrow> Some (x # before, m, rest)
           | None \<Rightarrow> None))"

subsection \<open>ensureDeterministicPDF\<close>

record DeterministicConfig =
  removeTimestamps :: bool
  fixedCreationDate :: "string option"
  removeVariableMetadata :: bool

definition DEFAULT_DETERMINISTIC_CONFIG :: DeterministicConfig where
  "DEFAULT_DETERMINISTIC_CONFIG =
     \<lparr>removeTimestamps = True, fixedCreationDate = None, removeVariableMetadata = True\<rparr>"

definition strip_timestamps :: "string \<Rightarrow> string" where
  "strip_timestamps pdfString =
     replace_all ''/ModDate ('' CHR '')'' False []
       (replace_all ''/CreationDate ('' CHR '')'' False [] pdfString)"

definition strip_variable_metadata :: "string \<Rightarrow> string" where
  "strip_variable_metadata pdfString =
     replace_all ''/Creator ('' CHR '')'' False ''/Creator (Resume PDF Generator)''
       (replace_all ''/Producer ('' CHR '')'' False ''/Producer (Resume PDF Generator)''
          (replace_all ''/ID ['' CHR '']'' True [] pdfString))"

definition insert_creation_date :: "string \<Rightarrow> string \<Rightarrow> string" where
  "insert_creation_date date pdfString =
     (case first_match ''/Title ('' CHR '')'' pdfString of
        Some (before, titleMatch, rest) \<Rightarrow>
          before @ titleMatch @ [CHR 0x0A] @ ''/CreationDate ('' @ date @ '')'' @ rest
      | None \<Rightarrow> pdfString)"

text \<open>
  The function on the bytes of the file. With both flags off it returns before the file
  is read, and the file stays as it is. An empty \<open>fixedCreationDate\<close> is falsy, as an
  absent one.
\<close>

definition ensureDeterministicPDF :: "DeterministicConfig \<Rightarrow> string \<Rightarrow> string" where
  "ensureDeterministicPDF config pdfString =
     (if \<not> removeTimestamps config \<and> \<not> removeVariableMetadata config then pdfString
      else
        (let s1 = (if removeTimestamps config then strip_timestamps pdfString else pdfString);
             s2 = (if removeVariableMetadata config then strip_variable_metadata s1 else s1)
         in case fixedCreationDate config of
              Some date \<Rightarrow> if date \<noteq> [] then insert_creation_date date s2 else s2
            | None \<Rightarrow> s2))"

text \<open>
  Where a pattern matches in a text: \<open>has_entry\<close> says whether it matches at some
  position, \<open>entry_values\<close> lists the run of every match, position by position.
\<close>

fun has_entry :: "string \<Rightarrow> char \<Rightarrow> bool \<Rightarrow> string \<Rightarrow> bool" where
  "has_entry key c ne [] = False"
| "has_entry key c ne (x # xs) = (match_entry key c ne (x # xs) \<noteq> None \<or> has_entry key c ne xs)"

fun entry_values :: "string \<Rightarrow> char \<Rightarrow> string \<Rightarrow> string list" where
  "entry_values key c [] = []"
| "entry_values key c (x # xs) =
     (case match_entry key c False (x # xs) of
        Some (v, rest) \<Rightarrow> v # entry_values key c xs
      | None \<Rightarrow> entry_values key c xs)"


subsection \<open>How a pass changes the entries of a text\<close>


lemma takeWhile_neq_in: "c \<in> set xs \<Longrightarrow> takeWhile (\<lambda>x. x \<noteq> c) (xs @ ys) = takeWhile (\<lambda>x. x \<noteq> c) xs"
  by (induction xs) auto

lemma takeWhile_neq_notin: "c \<notin> set xs \<Longrightarrow> takeWhile (\<lambda>x. x \<noteq> c) (xs @ ys) = xs @ takeWhile (\<lambda>x. x \<noteq> c) ys"
  by (induction xs) auto

lemma takeWhile_neq_stop: "c \<notin> set xs \<Longrightarrow> takeWhile (\<lambda>x. x \<noteq> c) (xs @ c # ys) = xs"
  by (induction xs) auto

lemma dropWhile_neq_stop: "c \<notin> set xs \<Longrightarrow> dropWhile (\<lambda>x. x \<noteq> c) (xs @ c # ys) = c # ys"
  by (induction xs) auto

lemma match_entry_iff:
  "match_entry key c ne s = Some (v, r) \<longleftrightarrow>
     s = key @ v @ c # r \<and> c \<notin> set v \<and> (ne \<longrightarrow> v \<noteq> [])"
proof
  assume m: "match_entry key c ne s = Some (v, r)"
  let ?body = "drop (length key) s"
  from m have p: "prefix key s" by (auto simp: match_entry_def split: if_splits)
  from m obtain y where d: "dropWhile (\<lambda>x. x \<noteq> c) ?body = y # r"
    and v: "v = takeWhile (\<lambda>x. x \<noteq> c) ?body" and n: "ne \<longrightarrow> v \<noteq> []"
    by (auto simp: match_entry_def Let_def split: if_splits list.splits)
  have "y = c" using hd_dropWhile [of "\<lambda>x. x \<noteq> c" ?body] d by auto
  moreover have "?body = v @ y # r" using v d takeWhile_dropWhile_id [of "\<lambda>x. x \<noteq> c" ?body] by simp
  moreover have "s = key @ ?body" using p by (auto simp: prefix_def)
  moreover have "c \<notin> set v" using v by (auto dest: set_takeWhileD)
  ultimately show "s = key @ v @ c # r \<and> c \<notin> set v \<and> (ne \<longrightarrow> v \<noteq> [])" using n by simp
next
  assume a: "s = key @ v @ c # r \<and> c \<notin> set v \<and> (ne \<longrightarrow> v \<noteq> [])"
  then have t: "takeWhile (\<lambda>x. x \<noteq> c) (v @ c # r) = v" and d: "dropWhile (\<lambda>x. x \<noteq> c) (v @ c # r) = c # r"
    by (simp_all add: takeWhile_neq_stop dropWhile_neq_stop)
  show "match_entry key c ne s = Some (v, r)"
    using a t d by (auto simp: match_entry_def Let_def)
qed

lemma match_entry_SomeE:
  assumes "match_entry key c ne s \<noteq> None"
  obtains v r where "match_entry key c ne s = Some (v, r)"
  using assms by (cases "match_entry key c ne s") auto

lemma match_entry_hd:
  assumes "x \<noteq> k"
  shows "match_entry (k # key) c ne (x # xs) = None"
  using assms by (simp add: match_entry_def)

lemma replace_all_copy:
  assumes "k \<notin> set w"
  shows "replace_all (k # key) c ne rep (w @ s) = w @ replace_all (k # key) c ne rep s"
  using assms by (induction w) (auto simp: match_entry_hd)

lemma replace_all_split:
  "replace_all (k # key) c ne rep t =
     takeWhile (\<lambda>x. x \<noteq> k) t @ replace_all (k # key) c ne rep (dropWhile (\<lambda>x. x \<noteq> k) t)"
proof -
  have "k \<notin> set (takeWhile (\<lambda>x. x \<noteq> k) t)" by (auto dest: set_takeWhileD)
  then have "replace_all (k # key) c ne rep (takeWhile (\<lambda>x. x \<noteq> k) t @ dropWhile (\<lambda>x. x \<noteq> k) t)
      = takeWhile (\<lambda>x. x \<noteq> k) t @ replace_all (k # key) c ne rep (dropWhile (\<lambda>x. x \<noteq> k) t)"
    by (rule replace_all_copy)
  then show ?thesis by simp
qed

lemma set_replace_all:
  "x \<in> set (replace_all key c ne rep s) \<Longrightarrow> x \<in> set s \<or> (x \<in> set rep \<and> c \<in> set s)"
proof (induction key c ne rep s rule: replace_all.induct)
  case (1 key c ne rep)
  then show ?case by simp
next
  case (2 key c ne rep y ys)
  show ?case
  proof (cases "match_entry key c ne (y # ys)")
    case None
    with 2 show ?thesis by auto
  next
    case (Some p)
    obtain v r where p: "p = (v, r)" by (cases p)
    have eq: "y # ys = key @ v @ c # r" using Some p by (simp add: match_entry_iff)
    then have sub: "set r \<subseteq> set (y # ys)" and cin: "c \<in> set (y # ys)"
      by (metis Un_iff set_append list.set_intros(2) subsetI, metis in_set_conv_decomp append.assoc)
    from "2.prems" Some p have "x \<in> set rep \<or> x \<in> set (replace_all key c ne rep r)" by auto
    then show ?thesis
    proof
      assume "x \<in> set rep" then show ?thesis using cin by blast
    next
      assume "x \<in> set (replace_all key c ne rep r)"
      then have "x \<in> set r \<or> (x \<in> set rep \<and> c \<in> set r)" using "2.IH"(2) [OF Some p [symmetric]] by auto
      then show ?thesis using sub cin by blast
    qed
  qed
qed

text \<open>Where a slash of the output comes from.\<close>

lemma replace_all_slash:
  assumes "CHR ''/'' \<notin> set (tl rep)"
    and "replace_all key c ne rep s = pre @ CHR ''/'' # post"
  shows "(\<exists>pre' t. s = pre' @ CHR ''/'' # t \<and> match_entry key c ne (CHR ''/'' # t) = None \<and>
            post = replace_all key c ne rep t)
       \<or> (\<exists>pre' v r. s = pre' @ key @ v @ c # r \<and> rep = CHR ''/'' # tl rep \<and>
            post = tl rep @ replace_all key c ne rep r)"
  using assms
proof (induction key c ne rep s arbitrary: pre rule: replace_all.induct)
  case (1 key c ne rep)
  then show ?case by simp
next
  case (2 key c ne rep y ys)
  show ?case
  proof (cases "match_entry key c ne (y # ys)")
    case None
    then have eq: "y # replace_all key c ne rep ys = pre @ CHR ''/'' # post" using "2.prems" by simp
    show ?thesis
    proof (cases pre)
      case Nil
      then have "y = CHR ''/''" "post = replace_all key c ne rep ys" using eq by auto
      then have "y # ys = [] @ CHR ''/'' # ys \<and> match_entry key c ne (CHR ''/'' # ys) = None \<and>
            post = replace_all key c ne rep ys" using None by simp
      then show ?thesis by blast
    next
      case (Cons a pre2)
      then have "replace_all key c ne rep ys = pre2 @ CHR ''/'' # post" and a: "a = y" using eq by auto
      from "2.IH"(1) [OF None "2.prems"(1) this(1)]
      show ?thesis
      proof (elim disjE exE conjE)
        fix pre' t
        assume "ys = pre' @ CHR ''/'' # t" "match_entry key c ne (CHR ''/'' # t) = None"
          "post = replace_all key c ne rep t"
        then have "y # ys = (y # pre') @ CHR ''/'' # t \<and> match_entry key c ne (CHR ''/'' # t) = None \<and>
            post = replace_all key c ne rep t" by simp
        then show ?thesis by blast
      next
        fix pre' v r
        assume "ys = pre' @ key @ v @ c # r" "rep = CHR ''/'' # tl rep"
          "post = tl rep @ replace_all key c ne rep r"
        then have "y # ys = (y # pre') @ key @ v @ c # r \<and> rep = CHR ''/'' # tl rep \<and>
          post = tl rep @ replace_all key c ne rep r" by simp
        then show ?thesis by blast
      qed
    qed
  next
    case (Some p)
    obtain v r where p: "p = (v, r)" by (cases p)
    have s: "y # ys = key @ v @ c # r" using Some p by (simp add: match_entry_iff)
    have eq: "rep @ replace_all key c ne rep r = pre @ CHR ''/'' # post"
      using "2.prems" Some p by simp
    have "(\<exists>pre2. replace_all key c ne rep r = pre2 @ CHR ''/'' # post)
        \<or> (rep = CHR ''/'' # tl rep \<and> pre = [] \<and> post = tl rep @ replace_all key c ne rep r)"
    proof (cases rep)
      case Nil
      then show ?thesis using eq by auto
    next
      case (Cons a rep')
      have nr: "CHR ''/'' \<notin> set rep'" using "2.prems"(1) Cons by simp
      show ?thesis
      proof (cases pre)
        case Nil
        then show ?thesis using eq Cons by auto
      next
        case (Cons b pre2)
        then have e2: "rep' @ replace_all key c ne rep r = pre2 @ CHR ''/'' # post"
          using eq \<open>rep = a # rep'\<close> by auto
        have "\<exists>pre3. replace_all key c ne rep r = pre3 @ CHR ''/'' # post"
          using e2 nr
          by (auto simp: append_eq_append_conv2 append_eq_Cons_conv Cons_eq_append_conv)
        then show ?thesis by blast
      qed
    qed
    then show ?thesis
    proof (elim disjE exE conjE)
      fix pre2 assume "replace_all key c ne rep r = pre2 @ CHR ''/'' # post"
      from "2.IH"(2) [OF Some p [symmetric] "2.prems"(1) this]
      show ?thesis
      proof (elim disjE exE conjE)
        fix pre' t
        assume "r = pre' @ CHR ''/'' # t" "match_entry key c ne (CHR ''/'' # t) = None"
          "post = replace_all key c ne rep t"
        then have "y # ys = (key @ v @ c # pre') @ CHR ''/'' # t \<and> match_entry key c ne (CHR ''/'' # t) = None \<and>
            post = replace_all key c ne rep t" using s by simp
        then show ?thesis by blast
      next
        fix pre' v' r'
        assume "r = pre' @ key @ v' @ c # r'" "rep = CHR ''/'' # tl rep"
          "post = tl rep @ replace_all key c ne rep r'"
        then have "y # ys = (key @ v @ c # pre') @ key @ v' @ c # r' \<and> rep = CHR ''/'' # tl rep \<and>
          post = tl rep @ replace_all key c ne rep r'" using s by simp
        then show ?thesis by blast
      qed
    next
      assume "rep = CHR ''/'' # tl rep" "pre = []" "post = tl rep @ replace_all key c ne rep r"
      then have "y # ys = [] @ key @ v @ c # r \<and> rep = CHR ''/'' # tl rep \<and>
          post = tl rep @ replace_all key c ne rep r" using s by simp
      then show ?thesis by blast
    qed
  qed
qed


lemma dropWhile_slash_cases:
  obtains "dropWhile (\<lambda>x. x \<noteq> k) t = []"
  | t3 where "dropWhile (\<lambda>x. x \<noteq> k) t = k # t3"
proof (cases "dropWhile (\<lambda>x. x \<noteq> k) t")
  case Nil
  then show ?thesis using that by blast
next
  case (Cons a t3)
  then have "a = k" using hd_dropWhile [of "\<lambda>x. x \<noteq> k" t] by auto
  then show ?thesis using that Cons by blast
qed

lemma match_transfer:
  assumes k': "CHR ''/'' \<notin> set k'" and c': "c' \<noteq> CHR ''/''" and rep: "c' \<in> set rep \<longrightarrow> c' = c"
    and m: "match_entry (CHR ''/'' # k') c' ne' (CHR ''/'' # replace_all (CHR ''/'' # k) c ne rep t) = Some (v', r')"
  shows "(\<exists>v r. match_entry (CHR ''/'' # k') c' ne' (CHR ''/'' # t) = Some (v, r) \<and>
             (v' = v \<or> CHR ''/'' \<in> set v))
       \<or> (\<exists>seg t3. t = seg @ CHR ''/'' # t3 \<and> CHR ''/'' \<notin> set seg \<and>
             strict_prefix (CHR ''/'' # seg) (CHR ''/'' # k') \<and> \<not> prefix [CHR ''/''] rep \<and>
             match_entry (CHR ''/'' # k) c ne (CHR ''/'' # t3) \<noteq> None)"
proof -
  let ?R = "replace_all (CHR ''/'' # k) c ne rep"
  define seg where "seg = takeWhile (\<lambda>x. x \<noteq> CHR ''/'') t"
  define t2 where "t2 = dropWhile (\<lambda>x. x \<noteq> CHR ''/'') t"
  have t: "t = seg @ t2" by (simp add: seg_def t2_def)
  have segfree: "CHR ''/'' \<notin> set seg" by (auto simp: seg_def dest: set_takeWhileD)
  have R: "?R t = seg @ ?R t2" unfolding seg_def t2_def by (rule replace_all_split)
  from m have eq: "seg @ ?R t2 = k' @ v' @ c' # r'" and nv: "c' \<notin> set v'" and ne: "ne' \<longrightarrow> v' \<noteq> []"
    by (simp_all add: match_entry_iff R)
  from eq consider us where "seg = k' @ us" "us @ ?R t2 = v' @ c' # r'"
    | us where "us \<noteq> []" "seg @ us = k'" "?R t2 = us @ v' @ c' # r'"
    by (auto simp: append_eq_append_conv2) metis+
  then show ?thesis
  proof cases
    case 1
    have "c' \<in> set (us @ ?R t2)" using 1(2) by simp
    then have "c' \<in> set us \<or> c' \<in> set t2" using set_replace_all [of c' _ c ne rep t2] rep by auto
    then have cin: "c' \<in> set (us @ t2)" by auto
    define v where "v = takeWhile (\<lambda>x. x \<noteq> c') (us @ t2)"
    define r where "r = tl (dropWhile (\<lambda>x. x \<noteq> c') (us @ t2))"
    have "dropWhile (\<lambda>x. x \<noteq> c') (us @ t2) \<noteq> []" using cin by simp
    then have "dropWhile (\<lambda>x. x \<noteq> c') (us @ t2) = c' # r"
      using hd_dropWhile [of "\<lambda>x. x \<noteq> c'" "us @ t2"] by (cases "dropWhile (\<lambda>x. x \<noteq> c') (us @ t2)") (auto simp: r_def)
    then have dec: "us @ t2 = v @ c' # r"
      using takeWhile_dropWhile_id [of "\<lambda>x. x \<noteq> c'" "us @ t2"] by (simp add: v_def)
    have nv2: "c' \<notin> set v" by (auto simp: v_def dest: set_takeWhileD)
    have v'eq: "v' = takeWhile (\<lambda>x. x \<noteq> c') (us @ ?R t2)"
    proof -
      have "takeWhile (\<lambda>x. x \<noteq> c') (v' @ c' # r') = v'" using nv by (simp add: takeWhile_neq_stop)
      then show ?thesis using 1(2) by simp
    qed
    have rel: "v' = v \<or> CHR ''/'' \<in> set v"
    proof (cases "c' \<in> set us")
      case True
      then show ?thesis by (simp add: v'eq v_def takeWhile_neq_in)
    next
      case False
      then have vv: "v = us @ takeWhile (\<lambda>x. x \<noteq> c') t2" by (simp add: v_def takeWhile_neq_notin)
      from False cin have "t2 \<noteq> []" by auto
      then obtain t3 where "t2 = CHR ''/'' # t3"
        using dropWhile_slash_cases [of "CHR ''/''" t] by (auto simp: t2_def)
      then show ?thesis using vv c' by simp
    qed
    have nonempty: "ne' \<longrightarrow> v \<noteq> []"
    proof
      assume n: ne'
      show "v \<noteq> []"
      proof
        assume "v = []"
        then have st: "us @ t2 = c' # r" using dec by simp
        show False
        proof (cases us)
          case Nil
          then have "t2 = c' # r" using st by simp
          then show False using dropWhile_slash_cases [of "CHR ''/''" t] c' by (auto simp: t2_def)
        next
          case (Cons a us')
          then have "a = c'" using st by simp
          then have "v' = []" using v'eq Cons by simp
          then show False using ne n by simp
        qed
      qed
    qed
    have "match_entry (CHR ''/'' # k') c' ne' (CHR ''/'' # t) = Some (v, r)"
      using dec nv2 nonempty by (simp add: match_entry_iff t 1(1))
    then show ?thesis using rel by blast
  next
    case 2
    have h: "hd us \<noteq> CHR ''/''" using 2(1,2) k' by (cases us) auto
    have hd: "hd (?R t2) = hd us" using 2(1,3) by (cases us) auto
    have "?R t2 \<noteq> []" using 2(1,3) by auto
    then have "t2 \<noteq> []" by auto
    then obtain t3 where t3: "t2 = CHR ''/'' # t3"
      using dropWhile_slash_cases [of "CHR ''/''" t] by (auto simp: t2_def)
    have "\<not> prefix [CHR ''/''] rep"
    proof
      assume "prefix [CHR ''/''] rep"
      then obtain rep' where rp: "rep = CHR ''/'' # rep'" by (cases rep) auto
      have "hd (?R t2) = CHR ''/''"
        by (cases "match_entry (CHR ''/'' # k) c ne (CHR ''/'' # t3)") (auto simp: t3 rp)
      then show False using hd h by simp
    qed
    moreover have "strict_prefix (CHR ''/'' # seg) (CHR ''/'' # k')"
      using 2(1,2) by (auto simp: strict_prefix_def prefix_def)
    moreover have "match_entry (CHR ''/'' # k) c ne (CHR ''/'' # t3) \<noteq> None"
    proof
      assume "match_entry (CHR ''/'' # k) c ne (CHR ''/'' # t3) = None"
      then have "hd (?R t2) = CHR ''/''" by (simp add: t3)
      then show False using hd h by simp
    qed
    ultimately show ?thesis using t t3 segfree by blast
  qed
qed


text \<open>
  Deleting a match joins the text before it to the text after it, and the join can
  complete a key: in \<open>/Creation/CreationDate (a)Date (b)\<close> the deletion leaves
  \<open>/CreationDate (b)\<close>. \<open>splice_free key' key c ne s\<close> says that this cannot start
  in \<open>s\<close>: nowhere is a proper beginning of \<open>key'\<close> (a slash and the characters up to
  the next slash) directly followed by a match of the pattern \<open>key ... c\<close>.
\<close>

fun splice_free :: "string \<Rightarrow> string \<Rightarrow> char \<Rightarrow> bool \<Rightarrow> string \<Rightarrow> bool" where
  "splice_free key' key c ne [] = True"
| "splice_free key' key c ne (x # xs) =
     ((x = CHR ''/'' \<and> strict_prefix (x # takeWhile (\<lambda>y. y \<noteq> CHR ''/'') xs) key' \<longrightarrow>
         match_entry key c ne (dropWhile (\<lambda>y. y \<noteq> CHR ''/'') xs) = None)
      \<and> splice_free key' key c ne xs)"

lemma splice_freeD:
  assumes "splice_free key' key c ne s" and "s = pre @ CHR ''/'' # seg @ CHR ''/'' # rest"
    and "CHR ''/'' \<notin> set seg" and "strict_prefix (CHR ''/'' # seg) key'"
  shows "match_entry key c ne (CHR ''/'' # rest) = None"
  using assms
proof (induction pre arbitrary: s)
  case Nil
  then show ?case by (simp add: takeWhile_neq_stop dropWhile_neq_stop)
next
  case (Cons a pre)
  then show ?case by simp
qed

lemma splice_freeI:
  assumes "key \<noteq> []"
    and "\<And>pre seg rest. s = pre @ CHR ''/'' # seg @ CHR ''/'' # rest \<Longrightarrow> CHR ''/'' \<notin> set seg \<Longrightarrow>
      strict_prefix (CHR ''/'' # seg) key' \<Longrightarrow> match_entry key c ne (CHR ''/'' # rest) = None"
  shows "splice_free key' key c ne s"
  using assms(2)
proof (induction s)
  case Nil
  show ?case by simp
next
  case (Cons x xs)
  have tl: "splice_free key' key c ne xs"
  proof (rule Cons.IH)
    fix pre seg rest
    assume "xs = pre @ CHR ''/'' # seg @ CHR ''/'' # rest" "CHR ''/'' \<notin> set seg"
      "strict_prefix (CHR ''/'' # seg) key'"
    then show "match_entry key c ne (CHR ''/'' # rest) = None"
      using Cons.prems [of "x # pre" seg rest] by simp
  qed
  have hd: "x = CHR ''/'' \<and> strict_prefix (x # takeWhile (\<lambda>y. y \<noteq> CHR ''/'') xs) key' \<longrightarrow>
         match_entry key c ne (dropWhile (\<lambda>y. y \<noteq> CHR ''/'') xs) = None"
  proof
    assume a: "x = CHR ''/'' \<and> strict_prefix (x # takeWhile (\<lambda>y. y \<noteq> CHR ''/'') xs) key'"
    show "match_entry key c ne (dropWhile (\<lambda>y. y \<noteq> CHR ''/'') xs) = None"
    proof (rule dropWhile_slash_cases [of "CHR ''/''" xs])
      assume e: "dropWhile (\<lambda>y. y \<noteq> CHR ''/'') xs = []"
      have "match_entry key c ne [] = None" using assms(1) by (simp add: match_entry_def)
      then show ?thesis unfolding e .
    next
      fix t3
      assume d: "dropWhile (\<lambda>y. y \<noteq> CHR ''/'') xs = CHR ''/'' # t3"
      have "xs = takeWhile (\<lambda>y. y \<noteq> CHR ''/'') xs @ CHR ''/'' # t3"
        using takeWhile_dropWhile_id [of "\<lambda>y. y \<noteq> CHR ''/''" xs] d by simp
      then have "x # xs = [] @ CHR ''/'' # takeWhile (\<lambda>y. y \<noteq> CHR ''/'') xs @ CHR ''/'' # t3"
        using a by simp
      moreover have "CHR ''/'' \<notin> set (takeWhile (\<lambda>y. y \<noteq> CHR ''/'') xs)"
        by (auto dest: set_takeWhileD)
      moreover have "strict_prefix (CHR ''/'' # takeWhile (\<lambda>y. y \<noteq> CHR ''/'') xs) key'"
        using a by blast
      ultimately have "match_entry key c ne (CHR ''/'' # t3) = None"
        by (rule Cons.prems)
      then show ?thesis using d by simp
    qed
  qed
  show ?case using hd tl by simp
qed

text \<open>What the condition says, for keys that begin with their only slash.\<close>

lemma splice_free_iff:
  assumes "CHR ''/'' \<notin> set k'"
  shows "splice_free (CHR ''/'' # k') (CHR ''/'' # k) c ne s \<longleftrightarrow>
     \<not> (\<exists>pre u post. s = pre @ u @ post \<and> u \<noteq> [] \<and> strict_prefix u (CHR ''/'' # k') \<and>
            match_entry (CHR ''/'' # k) c ne post \<noteq> None)"
proof
  assume sf: "splice_free (CHR ''/'' # k') (CHR ''/'' # k) c ne s"
  show "\<not> (\<exists>pre u post. s = pre @ u @ post \<and> u \<noteq> [] \<and> strict_prefix u (CHR ''/'' # k') \<and>
            match_entry (CHR ''/'' # k) c ne post \<noteq> None)"
  proof
    assume "\<exists>pre u post. s = pre @ u @ post \<and> u \<noteq> [] \<and> strict_prefix u (CHR ''/'' # k') \<and>
            match_entry (CHR ''/'' # k) c ne post \<noteq> None"
    then obtain pre u post where s: "s = pre @ u @ post" and u: "u \<noteq> []"
      and sp: "strict_prefix u (CHR ''/'' # k')"
      and m: "match_entry (CHR ''/'' # k) c ne post \<noteq> None" by blast
    from u sp obtain seg where useg: "u = CHR ''/'' # seg" and "prefix seg k'"
      by (cases u) (auto simp: strict_prefix_def)
    then have segfree: "CHR ''/'' \<notin> set seg" using assms by (auto simp: prefix_def)
    from m obtain rest where post: "post = CHR ''/'' # rest"
      by (cases post) (auto simp: match_entry_def split: if_splits)
    have "s = pre @ CHR ''/'' # seg @ CHR ''/'' # rest" using s useg post by simp
    from splice_freeD [OF sf this segfree sp [unfolded useg]] m post show False by simp
  qed
next
  assume n: "\<not> (\<exists>pre u post. s = pre @ u @ post \<and> u \<noteq> [] \<and> strict_prefix u (CHR ''/'' # k') \<and>
            match_entry (CHR ''/'' # k) c ne post \<noteq> None)"
  show "splice_free (CHR ''/'' # k') (CHR ''/'' # k) c ne s"
  proof (rule splice_freeI)
    show "CHR ''/'' # k \<noteq> []" by simp
  next
    fix pre seg rest
    assume "s = pre @ CHR ''/'' # seg @ CHR ''/'' # rest"
      and sp: "strict_prefix (CHR ''/'' # seg) (CHR ''/'' # k')"
    then have "s = pre @ (CHR ''/'' # seg) @ (CHR ''/'' # rest)" by simp
    then show "match_entry (CHR ''/'' # k) c ne (CHR ''/'' # rest) = None"
      using n sp by blast
  qed
qed

lemma has_entry_iff:
  "has_entry key c ne s \<longleftrightarrow> (\<exists>pre post. s = pre @ post \<and> match_entry key c ne post \<noteq> None)"
proof (induction s)
  case Nil
  show ?case by (simp add: match_entry_def)
next
  case (Cons x xs)
  show ?case
  proof
    assume "has_entry key c ne (x # xs)"
    then consider "match_entry key c ne (x # xs) \<noteq> None" | "has_entry key c ne xs" by auto
    then show "\<exists>pre post. x # xs = pre @ post \<and> match_entry key c ne post \<noteq> None"
    proof cases
      case 1
      then have "x # xs = [] @ (x # xs) \<and> match_entry key c ne (x # xs) \<noteq> None" by simp
      then show ?thesis by blast
    next
      case 2
      then obtain pre post where "xs = pre @ post" "match_entry key c ne post \<noteq> None"
        using Cons.IH by blast
      then have "x # xs = (x # pre) @ post \<and> match_entry key c ne post \<noteq> None" by simp
      then show ?thesis by blast
    qed
  next
    assume "\<exists>pre post. x # xs = pre @ post \<and> match_entry key c ne post \<noteq> None"
    then obtain pre post where e: "x # xs = pre @ post" and m: "match_entry key c ne post \<noteq> None"
      by blast
    show "has_entry key c ne (x # xs)"
    proof (cases pre)
      case Nil
      then have "post = x # xs" using e by simp
      then show ?thesis using m by simp
    next
      case (Cons a pre')
      then have "xs = pre' @ post" using e by simp
      then have "has_entry key c ne xs" using m Cons.IH by blast
      then show ?thesis by simp
    qed
  qed
qed

lemma entry_values_iff:
  "v \<in> set (entry_values key c s) \<longleftrightarrow>
     (\<exists>pre post r. s = pre @ post \<and> match_entry key c False post = Some (v, r))"
proof (induction s)
  case Nil
  show ?case by (simp add: match_entry_def)
next
  case (Cons x xs)
  show ?case
  proof
    assume "v \<in> set (entry_values key c (x # xs))"
    then consider r where "match_entry key c False (x # xs) = Some (v, r)"
      | "v \<in> set (entry_values key c xs)"
      by (auto split: option.splits)
    then show "\<exists>pre post r. x # xs = pre @ post \<and> match_entry key c False post = Some (v, r)"
    proof cases
      case 1
      then have "x # xs = [] @ (x # xs) \<and> match_entry key c False (x # xs) = Some (v, r)" by simp
      then show ?thesis by blast
    next
      case 2
      then obtain pre post r where "xs = pre @ post" "match_entry key c False post = Some (v, r)"
        using Cons.IH by blast
      then have "x # xs = (x # pre) @ post \<and> match_entry key c False post = Some (v, r)" by simp
      then show ?thesis by blast
    qed
  next
    assume "\<exists>pre post r. x # xs = pre @ post \<and> match_entry key c False post = Some (v, r)"
    then obtain pre post r where e: "x # xs = pre @ post"
      and m: "match_entry key c False post = Some (v, r)" by blast
    show "v \<in> set (entry_values key c (x # xs))"
    proof (cases pre)
      case Nil
      then have "post = x # xs" using e by simp
      then show ?thesis using m by simp
    next
      case (Cons a pre')
      then have "xs = pre' @ post" using e by simp
      then have "v \<in> set (entry_values key c xs)" using m Cons.IH by blast
      then show ?thesis by (simp split: option.splits)
    qed
  qed
qed

lemma match_entry_slash:
  assumes "match_entry (CHR ''/'' # k) c ne post \<noteq> None"
  obtains t where "post = CHR ''/'' # t"
  using assms by (cases post) (auto simp: match_entry_def split: if_splits)


text \<open>Removal passes.\<close>

lemma removal_entries:
  assumes k': "CHR ''/'' \<notin> set k'" and c': "c' \<noteq> CHR ''/''"
    and sf: "splice_free (CHR ''/'' # k') (CHR ''/'' # k) c ne s"
    and h: "has_entry (CHR ''/'' # k') c' ne' (replace_all (CHR ''/'' # k) c ne [] s)"
  shows "\<exists>pre t. s = pre @ CHR ''/'' # t \<and> match_entry (CHR ''/'' # k) c ne (CHR ''/'' # t) = None \<and>
           match_entry (CHR ''/'' # k') c' ne' (CHR ''/'' # t) \<noteq> None"
proof -
  let ?R = "replace_all (CHR ''/'' # k) c ne []"
  from h obtain pre post where e: "?R s = pre @ post"
    and m: "match_entry (CHR ''/'' # k') c' ne' post \<noteq> None"
    by (auto simp: has_entry_iff)
  from m obtain post' where p: "post = CHR ''/'' # post'" by (rule match_entry_slash)
  from m obtain v' r' where m': "match_entry (CHR ''/'' # k') c' ne' post = Some (v', r')"
    by (rule match_entry_SomeE)
  have "CHR ''/'' \<notin> set (tl ([]::string))" by simp
  from replace_all_slash [OF this e [unfolded p]]
  obtain pre' t where s: "s = pre' @ CHR ''/'' # t"
    and n: "match_entry (CHR ''/'' # k) c ne (CHR ''/'' # t) = None" and pt: "post' = ?R t"
    by auto
  have "c' \<in> set ([]::string) \<longrightarrow> c' = c" by simp
  from match_transfer [OF k' c' this m' [unfolded p pt]]
  consider v r where "match_entry (CHR ''/'' # k') c' ne' (CHR ''/'' # t) = Some (v, r)"
    | seg t3 where "t = seg @ CHR ''/'' # t3" "CHR ''/'' \<notin> set seg"
      "strict_prefix (CHR ''/'' # seg) (CHR ''/'' # k')"
      "match_entry (CHR ''/'' # k) c ne (CHR ''/'' # t3) \<noteq> None"
    by blast
  then show ?thesis
  proof cases
    case 1
    then show ?thesis using s n by auto
  next
    case 2
    have "s = pre' @ CHR ''/'' # seg @ CHR ''/'' # t3" using s 2(1) by simp
    from splice_freeD [OF sf this 2(2,3)] 2(4) show ?thesis by simp
  qed
qed

lemma removal_clears:
  assumes "CHR ''/'' \<notin> set k" and "c \<noteq> CHR ''/''"
    and "splice_free (CHR ''/'' # k) (CHR ''/'' # k) c ne s"
  shows "\<not> has_entry (CHR ''/'' # k) c ne (replace_all (CHR ''/'' # k) c ne [] s)"
proof
  assume "has_entry (CHR ''/'' # k) c ne (replace_all (CHR ''/'' # k) c ne [] s)"
  from removal_entries [OF assms this] show False by auto
qed

lemma removal_keeps_absent:
  assumes "CHR ''/'' \<notin> set k'" and "c' \<noteq> CHR ''/''"
    and "splice_free (CHR ''/'' # k') (CHR ''/'' # k) c ne s"
    and "\<not> has_entry (CHR ''/'' # k') c' ne' s"
  shows "\<not> has_entry (CHR ''/'' # k') c' ne' (replace_all (CHR ''/'' # k) c ne [] s)"
proof
  assume "has_entry (CHR ''/'' # k') c' ne' (replace_all (CHR ''/'' # k) c ne [] s)"
  from removal_entries [OF assms(1,2,3) this]
  have "has_entry (CHR ''/'' # k') c' ne' s" unfolding has_entry_iff by blast
  then show False using assms(4) by simp
qed

text \<open>
  A removal pass keeps a text splice-free for a later removal, when the text is
  splice-free for both removals and between them.
\<close>

lemma removal_splice_free:
  assumes k2: "CHR ''/'' \<notin> set k2" and c2: "c2 \<noteq> CHR ''/''"
    and a1: "splice_free key' (CHR ''/'' # k) c ne s"
    and a2: "splice_free key' (CHR ''/'' # k2) c2 ne2 s"
    and a3: "splice_free (CHR ''/'' # k2) (CHR ''/'' # k) c ne s"
  shows "splice_free key' (CHR ''/'' # k2) c2 ne2 (replace_all (CHR ''/'' # k) c ne [] s)"
proof (rule splice_freeI)
  show "CHR ''/'' # k2 \<noteq> []" by simp
next
  let ?R = "replace_all (CHR ''/'' # k) c ne []"
  fix pre sg rest
  assume e: "?R s = pre @ CHR ''/'' # sg @ CHR ''/'' # rest" and sg: "CHR ''/'' \<notin> set sg"
    and sp: "strict_prefix (CHR ''/'' # sg) key'"
  have "CHR ''/'' \<notin> set (tl ([]::string))" by simp
  from replace_all_slash [OF this e]
  obtain pre' t where s: "s = pre' @ CHR ''/'' # t" and pt: "sg @ CHR ''/'' # rest = ?R t"
    by auto
  define seg where "seg = takeWhile (\<lambda>x. x \<noteq> CHR ''/'') t"
  define t2 where "t2 = dropWhile (\<lambda>x. x \<noteq> CHR ''/'') t"
  have t: "t = seg @ t2" by (simp add: seg_def t2_def)
  have segfree: "CHR ''/'' \<notin> set seg" by (auto simp: seg_def dest: set_takeWhileD)
  have R: "?R t = seg @ ?R t2" unfolding seg_def t2_def by (rule replace_all_split)
  have eq: "sg @ CHR ''/'' # rest = seg @ ?R t2" using pt R by simp
  define us where "us = takeWhile (\<lambda>x. x \<noteq> CHR ''/'') (?R t2)"
  have "takeWhile (\<lambda>x. x \<noteq> CHR ''/'') (sg @ CHR ''/'' # rest) = sg"
    using sg by (simp add: takeWhile_neq_stop)
  then have sgeq: "sg = seg @ us"
    using eq segfree by (simp add: takeWhile_neq_notin us_def)
  have R2eq: "?R t2 = us @ CHR ''/'' # rest" using eq unfolding sgeq by simp
  then have "t2 \<noteq> []" by auto
  then obtain t3 where t3: "t2 = CHR ''/'' # t3"
    using dropWhile_slash_cases [of "CHR ''/''" t] by (auto simp: t2_def)
  have s': "s = pre' @ CHR ''/'' # seg @ CHR ''/'' # t3" using s t t3 by simp
  have sp': "strict_prefix (CHR ''/'' # seg) key'"
    using sp unfolding sgeq by (auto simp: strict_prefix_def prefix_def)
  from splice_freeD [OF a1 s' segfree sp']
  have n: "match_entry (CHR ''/'' # k) c ne (CHR ''/'' # t3) = None" .
  then have R2: "?R t2 = CHR ''/'' # ?R t3" by (simp add: t3)
  have "us = []" unfolding us_def R2 by simp
  then have rest: "rest = ?R t3" using R2eq R2 by simp
  show "match_entry (CHR ''/'' # k2) c2 ne2 (CHR ''/'' # rest) = None"
  proof (rule ccontr)
    assume "match_entry (CHR ''/'' # k2) c2 ne2 (CHR ''/'' # rest) \<noteq> None"
    then obtain v' r' where m': "match_entry (CHR ''/'' # k2) c2 ne2 (CHR ''/'' # ?R t3) = Some (v', r')"
      unfolding rest by (rule match_entry_SomeE)
    have "c2 \<in> set ([]::string) \<longrightarrow> c2 = c" by simp
    from match_transfer [OF k2 c2 this m']
    consider v r where "match_entry (CHR ''/'' # k2) c2 ne2 (CHR ''/'' # t3) = Some (v, r)"
      | seg' t4 where "t3 = seg' @ CHR ''/'' # t4" "CHR ''/'' \<notin> set seg'"
        "strict_prefix (CHR ''/'' # seg') (CHR ''/'' # k2)"
        "match_entry (CHR ''/'' # k) c ne (CHR ''/'' # t4) \<noteq> None"
      by blast
    then show False
    proof cases
      case 1
      then show False using splice_freeD [OF a2 s' segfree sp'] by simp
    next
      case 2
      have "s = (pre' @ CHR ''/'' # seg) @ CHR ''/'' # seg' @ CHR ''/'' # t4"
        using s' 2(1) by simp
      from splice_freeD [OF a3 this 2(2,3)] 2(4) show False by simp
    qed
  qed
qed

text \<open>Replacement passes.\<close>

lemma replacement_entries:
  assumes k': "CHR ''/'' \<notin> set k'" and c': "c' \<noteq> CHR ''/''"
    and rep: "CHR ''/'' \<notin> set rep'" "c' \<in> set rep' \<longrightarrow> c' = c"
    and div: "\<not> prefix (CHR ''/'' # k') (CHR ''/'' # rep')" "\<not> prefix (CHR ''/'' # rep') (CHR ''/'' # k')"
    and h: "has_entry (CHR ''/'' # k') c' ne' (replace_all (CHR ''/'' # k) c ne (CHR ''/'' # rep') s)"
  shows "has_entry (CHR ''/'' # k') c' ne' s"
proof -
  let ?R = "replace_all (CHR ''/'' # k) c ne (CHR ''/'' # rep')"
  from h obtain pre post where e: "?R s = pre @ post"
    and m: "match_entry (CHR ''/'' # k') c' ne' post \<noteq> None"
    by (auto simp: has_entry_iff)
  from m obtain post' where p: "post = CHR ''/'' # post'" by (rule match_entry_slash)
  from m obtain v' r' where m': "match_entry (CHR ''/'' # k') c' ne' post = Some (v', r')"
    by (rule match_entry_SomeE)
  have "CHR ''/'' \<notin> set (tl (CHR ''/'' # rep'))" using rep(1) by simp
  from replace_all_slash [OF this e [unfolded p]]
  show ?thesis
  proof (elim disjE exE conjE)
    fix pre' t
    assume s: "s = pre' @ CHR ''/'' # t" and pt: "post' = ?R t"
    have "c' \<in> set (CHR ''/'' # rep') \<longrightarrow> c' = c" using rep(2) c' by simp
    from match_transfer [OF k' c' this m' [unfolded p pt]]
    obtain v r where "match_entry (CHR ''/'' # k') c' ne' (CHR ''/'' # t) = Some (v, r)" by auto
    then show ?thesis unfolding has_entry_iff using s by blast
  next
    fix pre' v r
    assume "post' = tl (CHR ''/'' # rep') @ ?R r"
    then have "post = (CHR ''/'' # rep') @ ?R r" using p by simp
    then have "prefix (CHR ''/'' # k') ((CHR ''/'' # rep') @ ?R r)"
      using m' by (auto simp: match_entry_iff simp del: append_Cons)
    then have "prefix (CHR ''/'' # k') (CHR ''/'' # rep') \<or> prefix (CHR ''/'' # rep') (CHR ''/'' # k')"
      by (metis prefix_append prefix_def)
    then show ?thesis using div by simp
  qed
qed

lemma replacement_own_values:
  assumes k: "CHR ''/'' \<notin> set k" and c: "c \<noteq> CHR ''/''"
    and const: "CHR ''/'' \<notin> set const" "c \<notin> set const"
    and rep: "rep = CHR ''/'' # k @ const @ [c]"
    and v: "v \<in> set (entry_values (CHR ''/'' # k) c (replace_all (CHR ''/'' # k) c False rep s))"
  shows "v = const"
proof -
  let ?rep = "CHR ''/'' # k @ const @ [c]"
  let ?R = "replace_all (CHR ''/'' # k) c False ?rep"
  note v = v [unfolded rep]
  from v obtain pre post r' where e: "?R s = pre @ post"
    and m: "match_entry (CHR ''/'' # k) c False post = Some (v, r')"
    by (auto simp: entry_values_iff)
  from m obtain post' where p: "post = CHR ''/'' # post'"
    using match_entry_slash [of k c False post] by auto
  have "CHR ''/'' \<notin> set (tl ?rep)" using k c const by simp
  from replace_all_slash [OF this e [unfolded p]]
  show ?thesis
  proof (elim disjE exE conjE)
    fix pre' t
    assume n: "match_entry (CHR ''/'' # k) c False (CHR ''/'' # t) = None" and pt: "post' = ?R t"
    have "c \<in> set ?rep \<longrightarrow> c = c" by simp
    from match_transfer [OF k c this m [unfolded p pt]] n
    show ?thesis by auto
  next
    fix pre' w r
    assume "post' = tl ?rep @ ?R r"
    then have "post = (CHR ''/'' # k) @ const @ c # ?R r" using p by simp
    then have "match_entry (CHR ''/'' # k) c False post = Some (const, ?R r)"
      using const(2) by (simp only: match_entry_iff) simp
    then show ?thesis using m by simp
  qed
qed

lemma replacement_other_values:
  assumes k': "CHR ''/'' \<notin> set k'" and c': "c' \<noteq> CHR ''/''"
    and rep: "CHR ''/'' \<notin> set rep'" "c' \<in> set rep' \<longrightarrow> c' = c"
    and div: "\<not> prefix (CHR ''/'' # k') (CHR ''/'' # rep')" "\<not> prefix (CHR ''/'' # rep') (CHR ''/'' # k')"
    and const': "CHR ''/'' \<notin> set const'"
    and all: "\<forall>v \<in> set (entry_values (CHR ''/'' # k') c' s). v = const'"
    and v: "v \<in> set (entry_values (CHR ''/'' # k') c'
              (replace_all (CHR ''/'' # k) c ne (CHR ''/'' # rep') s))"
  shows "v = const'"
proof -
  let ?R = "replace_all (CHR ''/'' # k) c ne (CHR ''/'' # rep')"
  from v obtain pre post r' where e: "?R s = pre @ post"
    and m: "match_entry (CHR ''/'' # k') c' False post = Some (v, r')"
    by (auto simp: entry_values_iff)
  from m obtain post' where p: "post = CHR ''/'' # post'"
    using match_entry_slash [of k' c' False post] by auto
  have "CHR ''/'' \<notin> set (tl (CHR ''/'' # rep'))" using rep(1) by simp
  from replace_all_slash [OF this e [unfolded p]]
  show ?thesis
  proof (elim disjE exE conjE)
    fix pre' t
    assume s: "s = pre' @ CHR ''/'' # t" and pt: "post' = ?R t"
    have "c' \<in> set (CHR ''/'' # rep') \<longrightarrow> c' = c" using rep(2) c' by simp
    from match_transfer [OF k' c' this m [unfolded p pt]]
    obtain w r where w: "match_entry (CHR ''/'' # k') c' False (CHR ''/'' # t) = Some (w, r)"
      and rel: "v = w \<or> CHR ''/'' \<in> set w" by auto
    have "w \<in> set (entry_values (CHR ''/'' # k') c' s)"
      unfolding entry_values_iff using s w by blast
    then have "w = const'" using all by simp
    then show ?thesis using rel const' by auto
  next
    fix pre' w r
    assume "post' = tl (CHR ''/'' # rep') @ ?R r"
    then have "post = (CHR ''/'' # rep') @ ?R r" using p by simp
    then have "prefix (CHR ''/'' # k') ((CHR ''/'' # rep') @ ?R r)"
      using m by (auto simp: match_entry_iff simp del: append_Cons)
    then have "prefix (CHR ''/'' # k') (CHR ''/'' # rep') \<or> prefix (CHR ''/'' # rep') (CHR ''/'' # k')"
      by (metis prefix_append prefix_def)
    then show ?thesis using div by simp
  qed
qed

text \<open>Texts a pass leaves as they are.\<close>

lemma replace_all_no_entry:
  "\<not> has_entry key c ne s \<Longrightarrow> replace_all key c ne rep s = s"
  by (induction s) (auto split: option.splits)

lemma entry_values_suffix:
  "set (entry_values key c r) \<subseteq> set (entry_values key c (pre @ r))"
  by (induction pre) (auto split: option.splits)

lemma replace_all_const:
  assumes "rep = key @ const @ [c]" and "\<forall>v \<in> set (entry_values key c s). v = const"
  shows "replace_all key c False rep s = s"
  using assms(2) unfolding assms(1)
proof (induction "length s" arbitrary: s rule: less_induct)
  case less
  show ?case
  proof (cases s)
    case Nil
    then show ?thesis by simp
  next
    case (Cons x xs)
    show ?thesis
    proof (cases "match_entry key c False (x # xs)")
      case None
      have "set (entry_values key c xs) \<subseteq> set (entry_values key c s)"
        using entry_values_suffix [of key c xs "[x]"] Cons by simp
      then have "replace_all key c False (key @ const @ [c]) xs = xs"
        using less Cons by auto
      then show ?thesis using None Cons by simp
    next
      case (Some p)
      obtain v r where p: "p = (v, r)" by (cases p)
      have "v \<in> set (entry_values key c s)" using Some p Cons by simp
      then have v: "v = const" using less.prems by simp
      have s: "s = key @ const @ c # r" using Some p Cons v by (simp add: match_entry_iff)
      have "set (entry_values key c r) \<subseteq> set (entry_values key c s)"
        using entry_values_suffix [of key c r "key @ const @ [c]"] s by simp
      moreover have "length r < length s" using s by simp
      ultimately have "replace_all key c False (key @ const @ [c]) r = r"
        using less by auto
      then show ?thesis using Some p Cons s by simp
    qed
  qed
qed

subsection \<open>The metadata entries\<close>

definition has_CreationDate :: "string \<Rightarrow> bool" where
  "has_CreationDate s = has_entry ''/CreationDate ('' CHR '')'' False s"

definition has_ModDate :: "string \<Rightarrow> bool" where
  "has_ModDate s = has_entry ''/ModDate ('' CHR '')'' False s"

definition has_ID :: "string \<Rightarrow> bool" where
  "has_ID s = has_entry ''/ID ['' CHR '']'' True s"

definition has_Title :: "string \<Rightarrow> bool" where
  "has_Title s = has_entry ''/Title ('' CHR '')'' False s"

definition Producer_values :: "string \<Rightarrow> string list" where
  "Producer_values s = entry_values ''/Producer ('' CHR '')'' s"

definition Creator_values :: "string \<Rightarrow> string list" where
  "Creator_values s = entry_values ''/Creator ('' CHR '')'' s"

text \<open>
  The patterns whose matches a run with the given configuration deletes, and the texts
  on which no deletion of the run can complete a key of an entry that the run deletes:
  no match of one of these patterns stands directly after a proper beginning of one of
  their keys.
\<close>

definition removed :: "DeterministicConfig \<Rightarrow> (string \<times> char \<times> bool) list" where
  "removed config =
     (if removeTimestamps config
      then [(''/CreationDate ('', CHR '')'', False), (''/ModDate ('', CHR '')'', False)] else []) @
     (if removeVariableMetadata config then [(''/ID ['', CHR '']'', True)] else [])"

definition well_delimited :: "DeterministicConfig \<Rightarrow> string \<Rightarrow> bool" where
  "well_delimited config s \<longleftrightarrow>
     list_all (\<lambda>(key', c', ne').
       list_all (\<lambda>(key, c, ne). splice_free key' key c ne s) (removed config)) (removed config)"

text \<open>
  Whether the run inserts a creation date: a flag is on (with both off the run ends
  before the file is read), \<open>fixedCreationDate\<close> is set and not empty, and the text as
  it is after the removals, which is the output of the run without
  \<open>fixedCreationDate\<close>, has a \<open>/Title (...)\<close> entry to insert the date after.
\<close>

definition inserts_creation_date :: "DeterministicConfig \<Rightarrow> string \<Rightarrow> bool" where
  "inserts_creation_date config s \<longleftrightarrow>
     (removeTimestamps config \<or> removeVariableMetadata config) \<and>
     (case fixedCreationDate config of None \<Rightarrow> False | Some date \<Rightarrow> date \<noteq> []) \<and>
     has_Title (ensureDeterministicPDF (config\<lparr>fixedCreationDate := None\<rparr>) s)"

lemma strip_timestamps_clears:
  assumes "splice_free ''/CreationDate ('' ''/CreationDate ('' CHR '')'' False s"
    and "splice_free ''/CreationDate ('' ''/ModDate ('' CHR '')'' False s"
    and "splice_free ''/ModDate ('' ''/CreationDate ('' CHR '')'' False s"
    and "splice_free ''/ModDate ('' ''/ModDate ('' CHR '')'' False s"
  shows "\<not> has_CreationDate (strip_timestamps s)" and "\<not> has_ModDate (strip_timestamps s)"
proof -
  let ?s1 = "replace_all ''/CreationDate ('' CHR '')'' False [] s"
  have c1: "splice_free ''/CreationDate ('' ''/ModDate ('' CHR '')'' False ?s1"
    by (rule removal_splice_free [OF _ _ assms(1) assms(2) assms(3)]) simp_all
  have m1: "splice_free ''/ModDate ('' ''/ModDate ('' CHR '')'' False ?s1"
    by (rule removal_splice_free [OF _ _ assms(3) assms(4) assms(3)]) simp_all
  have "\<not> has_entry ''/CreationDate ('' CHR '')'' False ?s1"
    by (rule removal_clears [OF _ _ assms(1)]) simp_all
  then show "\<not> has_CreationDate (strip_timestamps s)"
    unfolding has_CreationDate_def strip_timestamps_def
    by (intro removal_keeps_absent [OF _ _ c1]) simp_all
  show "\<not> has_ModDate (strip_timestamps s)"
    unfolding has_ModDate_def strip_timestamps_def
    by (rule removal_clears [OF _ _ m1]) simp_all
qed

lemma strip_timestamps_splice_free:
  assumes "splice_free key' ''/CreationDate ('' CHR '')'' False s"
    and "splice_free key' ''/ModDate ('' CHR '')'' False s"
    and "splice_free key' ''/ID ['' CHR '']'' True s"
    and "splice_free ''/ID ['' ''/CreationDate ('' CHR '')'' False s"
    and "splice_free ''/ID ['' ''/ModDate ('' CHR '')'' False s"
    and "splice_free ''/ModDate ('' ''/CreationDate ('' CHR '')'' False s"
  shows "splice_free key' ''/ID ['' CHR '']'' True (strip_timestamps s)"
proof -
  let ?s1 = "replace_all ''/CreationDate ('' CHR '')'' False [] s"
  have b1: "splice_free key' ''/ModDate ('' CHR '')'' False ?s1"
    by (rule removal_splice_free [OF _ _ assms(1) assms(2) assms(6)]) simp_all
  have b2: "splice_free key' ''/ID ['' CHR '']'' True ?s1"
    by (rule removal_splice_free [OF _ _ assms(1) assms(3) assms(4)]) simp_all
  have b3: "splice_free ''/ID ['' ''/ModDate ('' CHR '')'' False ?s1"
    by (rule removal_splice_free [OF _ _ assms(4) assms(5) assms(6)]) simp_all
  show ?thesis
    unfolding strip_timestamps_def
    by (rule removal_splice_free [OF _ _ b1 b2 b3]) simp_all
qed

lemma strip_variable_metadata_keeps:
  assumes "\<not> has_entry (CHR ''/'' # k') c' ne' (replace_all ''/ID ['' CHR '']'' True [] s)"
    and "CHR ''/'' \<notin> set k'" and "c' = CHR '')'' \<or> c' = CHR '']''"
    and "\<not> prefix (CHR ''/'' # k') ''/Producer (Resume PDF Generator)''"
    and "\<not> prefix ''/Producer (Resume PDF Generator)'' (CHR ''/'' # k')"
    and "\<not> prefix (CHR ''/'' # k') ''/Creator (Resume PDF Generator)''"
    and "\<not> prefix ''/Creator (Resume PDF Generator)'' (CHR ''/'' # k')"
  shows "\<not> has_entry (CHR ''/'' # k') c' ne' (strip_variable_metadata s)"
proof
  let ?s3 = "replace_all ''/ID ['' CHR '']'' True [] s"
  let ?s4 = "replace_all ''/Producer ('' CHR '')'' False ''/Producer (Resume PDF Generator)'' ?s3"
  assume "has_entry (CHR ''/'' # k') c' ne' (strip_variable_metadata s)"
  then have "has_entry (CHR ''/'' # k') c' ne'
     (replace_all ''/Creator ('' CHR '')'' False ''/Creator (Resume PDF Generator)'' ?s4)"
    by (simp add: strip_variable_metadata_def)
  then have "has_entry (CHR ''/'' # k') c' ne' ?s4"
    using assms(2,3,6,7) by (elim replacement_entries [rotated -1]) auto
  then have "has_entry (CHR ''/'' # k') c' ne' ?s3"
    using assms(2,3,4,5) by (elim replacement_entries [rotated -1]) auto
  then show False using assms(1) by simp
qed

lemma strip_variable_metadata_values:
  shows "\<forall>v \<in> set (Producer_values (strip_variable_metadata s)). v = ''Resume PDF Generator''"
    and "\<forall>v \<in> set (Creator_values (strip_variable_metadata s)). v = ''Resume PDF Generator''"
proof -
  let ?s3 = "replace_all ''/ID ['' CHR '']'' True [] s"
  let ?s4 = "replace_all ''/Producer ('' CHR '')'' False ''/Producer (Resume PDF Generator)'' ?s3"
  have p4: "\<forall>v \<in> set (entry_values ''/Producer ('' CHR '')'' ?s4). v = ''Resume PDF Generator''"
  proof
    fix v assume "v \<in> set (entry_values ''/Producer ('' CHR '')'' ?s4)"
    then show "v = ''Resume PDF Generator''"
      by (elim replacement_own_values [rotated -1]) simp_all
  qed
  show "\<forall>v \<in> set (Producer_values (strip_variable_metadata s)). v = ''Resume PDF Generator''"
    unfolding Producer_values_def strip_variable_metadata_def
  proof
    fix v
    assume "v \<in> set (entry_values ''/Producer ('' CHR '')''
       (replace_all ''/Creator ('' CHR '')'' False ''/Creator (Resume PDF Generator)'' ?s4))"
    then show "v = ''Resume PDF Generator''"
      using p4 by (elim replacement_other_values [rotated -1]) simp_all
  qed
  show "\<forall>v \<in> set (Creator_values (strip_variable_metadata s)). v = ''Resume PDF Generator''"
    unfolding Creator_values_def strip_variable_metadata_def
  proof
    fix v
    assume "v \<in> set (entry_values ''/Creator ('' CHR '')''
       (replace_all ''/Creator ('' CHR '')'' False ''/Creator (Resume PDF Generator)'' ?s4))"
    then show "v = ''Resume PDF Generator''"
      by (elim replacement_own_values [rotated -1]) simp_all
  qed
qed

lemma strip_variable_metadata_clears:
  assumes "splice_free ''/ID ['' ''/ID ['' CHR '']'' True s"
  shows "\<not> has_ID (strip_variable_metadata s)"
  unfolding has_ID_def
proof (rule strip_variable_metadata_keeps)
  show "\<not> has_entry ''/ID ['' CHR '']'' True (replace_all ''/ID ['' CHR '']'' True [] s)"
    by (rule removal_clears [OF _ _ assms]) simp_all
qed simp_all

lemma strip_variable_metadata_timestamps:
  shows "splice_free ''/CreationDate ('' ''/ID ['' CHR '']'' True s \<Longrightarrow>
      \<not> has_CreationDate s \<Longrightarrow> \<not> has_CreationDate (strip_variable_metadata s)"
    and "splice_free ''/ModDate ('' ''/ID ['' CHR '']'' True s \<Longrightarrow>
      \<not> has_ModDate s \<Longrightarrow> \<not> has_ModDate (strip_variable_metadata s)"
proof -
  assume sf: "splice_free ''/CreationDate ('' ''/ID ['' CHR '']'' True s"
    and a: "\<not> has_CreationDate s"
  show "\<not> has_CreationDate (strip_variable_metadata s)"
    unfolding has_CreationDate_def
  proof (rule strip_variable_metadata_keeps)
    show "\<not> has_entry ''/CreationDate ('' CHR '')'' False (replace_all ''/ID ['' CHR '']'' True [] s)"
      using a unfolding has_CreationDate_def by (intro removal_keeps_absent [OF _ _ sf]) simp_all
  qed simp_all
next
  assume sf: "splice_free ''/ModDate ('' ''/ID ['' CHR '']'' True s"
    and a: "\<not> has_ModDate s"
  show "\<not> has_ModDate (strip_variable_metadata s)"
    unfolding has_ModDate_def
  proof (rule strip_variable_metadata_keeps)
    show "\<not> has_entry ''/ModDate ('' CHR '')'' False (replace_all ''/ID ['' CHR '']'' True [] s)"
      using a unfolding has_ModDate_def by (intro removal_keeps_absent [OF _ _ sf]) simp_all
  qed simp_all
qed

lemma strip_timestamps_fixed:
  assumes "\<not> has_CreationDate s" and "\<not> has_ModDate s"
  shows "strip_timestamps s = s"
  using assms by (simp add: strip_timestamps_def has_CreationDate_def has_ModDate_def replace_all_no_entry)

lemma strip_variable_metadata_fixed:
  assumes "\<not> has_ID s"
    and "\<forall>v \<in> set (Producer_values s). v = ''Resume PDF Generator''"
    and "\<forall>v \<in> set (Creator_values s). v = ''Resume PDF Generator''"
  shows "strip_variable_metadata s = s"
proof -
  have 1: "replace_all ''/ID ['' CHR '']'' True [] s = s"
    using assms(1) by (simp add: has_ID_def replace_all_no_entry)
  have 2: "replace_all ''/Producer ('' CHR '')'' False ''/Producer (Resume PDF Generator)'' s = s"
    using assms(2) unfolding Producer_values_def by (intro replace_all_const) simp_all
  have 3: "replace_all ''/Creator ('' CHR '')'' False ''/Creator (Resume PDF Generator)'' s = s"
    using assms(3) unfolding Creator_values_def by (intro replace_all_const) simp_all
  show ?thesis by (simp add: strip_variable_metadata_def 1 2 3)
qed


lemma default_config_run:
  "ensureDeterministicPDF DEFAULT_DETERMINISTIC_CONFIG s = strip_variable_metadata (strip_timestamps s)"
  by (simp add: ensureDeterministicPDF_def DEFAULT_DETERMINISTIC_CONFIG_def)


lemma well_delimited_default:
  "well_delimited DEFAULT_DETERMINISTIC_CONFIG s \<longleftrightarrow>
     splice_free ''/CreationDate ('' ''/CreationDate ('' CHR '')'' False s \<and>
     splice_free ''/CreationDate ('' ''/ModDate ('' CHR '')'' False s \<and>
     splice_free ''/CreationDate ('' ''/ID ['' CHR '']'' True s \<and>
     splice_free ''/ModDate ('' ''/CreationDate ('' CHR '')'' False s \<and>
     splice_free ''/ModDate ('' ''/ModDate ('' CHR '')'' False s \<and>
     splice_free ''/ModDate ('' ''/ID ['' CHR '']'' True s \<and>
     splice_free ''/ID ['' ''/CreationDate ('' CHR '')'' False s \<and>
     splice_free ''/ID ['' ''/ModDate ('' CHR '')'' False s \<and>
     splice_free ''/ID ['' ''/ID ['' CHR '']'' True s"
  by (simp add: well_delimited_def removed_def DEFAULT_DETERMINISTIC_CONFIG_def)

text \<open>What both passes leave, on a text that is splice-free for the three patterns.\<close>

lemma strip_both_clears:
  assumes "splice_free ''/CreationDate ('' ''/CreationDate ('' CHR '')'' False s"
    and "splice_free ''/CreationDate ('' ''/ModDate ('' CHR '')'' False s"
    and "splice_free ''/CreationDate ('' ''/ID ['' CHR '']'' True s"
    and "splice_free ''/ModDate ('' ''/CreationDate ('' CHR '')'' False s"
    and "splice_free ''/ModDate ('' ''/ModDate ('' CHR '')'' False s"
    and "splice_free ''/ModDate ('' ''/ID ['' CHR '']'' True s"
    and "splice_free ''/ID ['' ''/CreationDate ('' CHR '')'' False s"
    and "splice_free ''/ID ['' ''/ModDate ('' CHR '')'' False s"
    and "splice_free ''/ID ['' ''/ID ['' CHR '']'' True s"
  shows "\<not> has_CreationDate (strip_variable_metadata (strip_timestamps s))"
    and "\<not> has_ModDate (strip_variable_metadata (strip_timestamps s))"
    and "\<not> has_ID (strip_variable_metadata (strip_timestamps s))"
proof -
  note ts = strip_timestamps_clears [OF assms(1,2,4,5)]
  have c: "splice_free ''/CreationDate ('' ''/ID ['' CHR '']'' True (strip_timestamps s)"
    by (rule strip_timestamps_splice_free [OF assms(1,2,3) assms(7,8) assms(4)])
  have m: "splice_free ''/ModDate ('' ''/ID ['' CHR '']'' True (strip_timestamps s)"
    by (rule strip_timestamps_splice_free [OF assms(4,5,6) assms(7,8) assms(4)])
  have i: "splice_free ''/ID ['' ''/ID ['' CHR '']'' True (strip_timestamps s)"
    by (rule strip_timestamps_splice_free [OF assms(7,8,9) assms(7,8) assms(4)])
  show "\<not> has_CreationDate (strip_variable_metadata (strip_timestamps s))"
    by (rule strip_variable_metadata_timestamps(1) [OF c ts(1)])
  show "\<not> has_ModDate (strip_variable_metadata (strip_timestamps s))"
    by (rule strip_variable_metadata_timestamps(2) [OF m ts(2)])
  show "\<not> has_ID (strip_variable_metadata (strip_timestamps s))"
    by (rule strip_variable_metadata_clears [OF i])
qed

text \<open>
  C1, as the code has it. After \<open>ensureDeterministicPDF\<close> with the default
  configuration, every \<open>/Producer (...)\<close> and every \<open>/Creator (...)\<close> entry of the
  output has the value "Resume PDF Generator", for every input. For every input in which
  no \<open>/CreationDate (...)\<close>, \<open>/ModDate (...)\<close> or \<open>/ID [...]\<close> entry stands
  directly after a proper beginning of one of these three keys, the output has no
  \<open>/CreationDate (...)\<close> entry, no \<open>/ModDate (...)\<close> entry and no \<open>/ID [...]\<close>
  array with contents.
\<close>

theorem ensureDeterministicPDF_default:
  "(well_delimited DEFAULT_DETERMINISTIC_CONFIG s \<longrightarrow>
      \<not> has_CreationDate (ensureDeterministicPDF DEFAULT_DETERMINISTIC_CONFIG s) \<and>
      \<not> has_ModDate (ensureDeterministicPDF DEFAULT_DETERMINISTIC_CONFIG s) \<and>
      \<not> has_ID (ensureDeterministicPDF DEFAULT_DETERMINISTIC_CONFIG s))
   \<and> (\<forall>v \<in> set (Producer_values (ensureDeterministicPDF DEFAULT_DETERMINISTIC_CONFIG s)).
         v = ''Resume PDF Generator'')
   \<and> (\<forall>v \<in> set (Creator_values (ensureDeterministicPDF DEFAULT_DETERMINISTIC_CONFIG s)).
         v = ''Resume PDF Generator'')"
proof (intro conjI impI)
  assume "well_delimited DEFAULT_DETERMINISTIC_CONFIG s"
  then have wd: "splice_free ''/CreationDate ('' ''/CreationDate ('' CHR '')'' False s"
     "splice_free ''/CreationDate ('' ''/ModDate ('' CHR '')'' False s"
     "splice_free ''/CreationDate ('' ''/ID ['' CHR '']'' True s"
     "splice_free ''/ModDate ('' ''/CreationDate ('' CHR '')'' False s"
     "splice_free ''/ModDate ('' ''/ModDate ('' CHR '')'' False s"
     "splice_free ''/ModDate ('' ''/ID ['' CHR '']'' True s"
     "splice_free ''/ID ['' ''/CreationDate ('' CHR '')'' False s"
     "splice_free ''/ID ['' ''/ModDate ('' CHR '')'' False s"
     "splice_free ''/ID ['' ''/ID ['' CHR '']'' True s"
    unfolding well_delimited_default by blast+
  show "\<not> has_CreationDate (ensureDeterministicPDF DEFAULT_DETERMINISTIC_CONFIG s)"
    unfolding default_config_run by (rule strip_both_clears(1) [OF wd])
  show "\<not> has_ModDate (ensureDeterministicPDF DEFAULT_DETERMINISTIC_CONFIG s)"
    unfolding default_config_run by (rule strip_both_clears(2) [OF wd])
  show "\<not> has_ID (ensureDeterministicPDF DEFAULT_DETERMINISTIC_CONFIG s)"
    unfolding default_config_run by (rule strip_both_clears(3) [OF wd])
next
  show "\<forall>v \<in> set (Producer_values (ensureDeterministicPDF DEFAULT_DETERMINISTIC_CONFIG s)).
         v = ''Resume PDF Generator''"
    unfolding default_config_run by (rule strip_variable_metadata_values(1))
  show "\<forall>v \<in> set (Creator_values (ensureDeterministicPDF DEFAULT_DETERMINISTIC_CONFIG s)).
         v = ''Resume PDF Generator''"
    unfolding default_config_run by (rule strip_variable_metadata_values(2))
qed

definition sample_pdf :: string where
  "sample_pdf = ''<</Title (Jo - Resume)/URI (https://example.com//jo)/Creator (Chromium)/Producer (Skia/PDF m120)/CreationDate (D:20240101000000+00)/ModDate (D:20240101000000+00)>>/ID [<ab><cd>]''"

lemma sample_pdf_well_delimited: "well_delimited DEFAULT_DETERMINISTIC_CONFIG sample_pdf"
  by code_simp

lemma sample_pdf_normalised:
  "ensureDeterministicPDF DEFAULT_DETERMINISTIC_CONFIG sample_pdf =
     ''<</Title (Jo - Resume)/URI (https://example.com//jo)/Creator (Resume PDF Generator)/Producer (Resume PDF Generator)>>''"
  by code_simp

theorem ensureDeterministicPDF_default_witness:
  "well_delimited DEFAULT_DETERMINISTIC_CONFIG sample_pdf \<and>
   \<not> has_CreationDate (ensureDeterministicPDF DEFAULT_DETERMINISTIC_CONFIG sample_pdf) \<and>
   \<not> has_ModDate (ensureDeterministicPDF DEFAULT_DETERMINISTIC_CONFIG sample_pdf) \<and>
   \<not> has_ID (ensureDeterministicPDF DEFAULT_DETERMINISTIC_CONFIG sample_pdf) \<and>
   Producer_values (ensureDeterministicPDF DEFAULT_DETERMINISTIC_CONFIG sample_pdf) = [''Resume PDF Generator''] \<and>
   Creator_values (ensureDeterministicPDF DEFAULT_DETERMINISTIC_CONFIG sample_pdf) = [''Resume PDF Generator'']"
proof -
  have v: "Producer_values (ensureDeterministicPDF DEFAULT_DETERMINISTIC_CONFIG sample_pdf) = [''Resume PDF Generator'']"
    "Creator_values (ensureDeterministicPDF DEFAULT_DETERMINISTIC_CONFIG sample_pdf) = [''Resume PDF Generator'']"
    unfolding sample_pdf_normalised by code_simp+
  show ?thesis
    using ensureDeterministicPDF_default [of sample_pdf] sample_pdf_well_delimited v by simp
qed

text \<open>
  Where a removed entry stands directly after a proper beginning of a key, the deletion
  can complete the key: the output still holds a \<open>/CreationDate (...)\<close> entry. An
  identifier array without contents is not matched by \<open>[^\]]+\<close> and stays.
\<close>

theorem ensureDeterministicPDF_default_counterexample:
  "\<not> well_delimited DEFAULT_DETERMINISTIC_CONFIG ''/Creation/CreationDate (a)Date (b)'' \<and>
   ensureDeterministicPDF DEFAULT_DETERMINISTIC_CONFIG ''/Creation/CreationDate (a)Date (b)'' = ''/CreationDate (b)'' \<and>
   has_CreationDate (ensureDeterministicPDF DEFAULT_DETERMINISTIC_CONFIG ''/Creation/CreationDate (a)Date (b)'') \<and>
   ensureDeterministicPDF DEFAULT_DETERMINISTIC_CONFIG ''<</Root 1 0 R/ID []>>'' = ''<</Root 1 0 R/ID []>>''"
  by code_simp

text \<open>The run inserts a creation date exactly when the fixed date changes its output.\<close>

lemma first_match_None:
  "first_match key c s = None \<longleftrightarrow> \<not> has_entry key c False s"
  by (induction s) (auto split: option.splits)

lemma first_match_Some:
  assumes "first_match key c s = Some (before, m, rest)"
  shows "s = before @ m @ rest \<and> (\<exists>v. m = key @ v @ [c] \<and> c \<notin> set v)"
  using assms
proof (induction s arbitrary: before)
  case Nil
  then show ?case by simp
next
  case (Cons x xs)
  show ?case
  proof (cases "match_entry key c False (x # xs)")
    case (Some p)
    obtain v r where p: "p = (v, r)" by (cases p)
    have "x # xs = key @ v @ c # r \<and> c \<notin> set v" using Some p by (simp add: match_entry_iff)
    moreover have "before = []" "m = key @ v @ [c]" "rest = r" using Cons.prems Some p by auto
    ultimately show ?thesis by auto
  next
    case None
    then obtain b' where f: "first_match key c xs = Some (b', m, rest)" and b: "before = x # b'"
      using Cons.prems by (auto split: option.splits)
    from Cons.IH [OF f] show ?thesis using b by simp
  qed
qed

lemma insert_creation_date_cases:
  obtains "\<not> has_Title t" "insert_creation_date date t = t"
  | "has_Title t" "has_Title (insert_creation_date date t)" "insert_creation_date date t \<noteq> t"
proof (cases "first_match ''/Title ('' CHR '')'' t")
  case None
  then have "\<not> has_Title t" by (simp add: first_match_None has_Title_def)
  moreover have "insert_creation_date date t = t" using None by (simp add: insert_creation_date_def)
  ultimately show ?thesis using that by blast
next
  case (Some p)
  obtain before m rest where p: "p = (before, m, rest)" by (cases p)
  from first_match_Some [OF Some [unfolded p]]
  obtain v where t: "t = before @ m @ rest" and m: "m = ''/Title ('' @ v @ '')''" and v: "CHR '')'' \<notin> set v"
    by auto
  let ?ins = "[CHR 0x0A] @ ''/CreationDate ('' @ date @ '')''"
  have i: "insert_creation_date date t = before @ m @ ?ins @ rest"
    using Some p by (simp add: insert_creation_date_def)
  have "has_Title t"
    using Some by (metis first_match_None has_Title_def option.distinct(1))
  moreover have "has_Title (insert_creation_date date t)"
  proof -
    have "match_entry ''/Title ('' CHR '')'' False (m @ ?ins @ rest) = Some (v, ?ins @ rest)"
      using v unfolding m match_entry_iff by simp
    then show ?thesis unfolding has_Title_def has_entry_iff i by blast
  qed
  moreover have "insert_creation_date date t \<noteq> t"
  proof
    assume "insert_creation_date date t = t"
    then have "length (before @ m @ ?ins @ rest) = length t" using i by simp
    also have "length t = length (before @ m @ rest)" using t by simp
    finally show False by simp
  qed
  ultimately show ?thesis using that by blast
qed

lemma inserts_creation_date_iff:
  "inserts_creation_date config s \<longleftrightarrow>
     ensureDeterministicPDF config s \<noteq> ensureDeterministicPDF (config\<lparr>fixedCreationDate := None\<rparr>) s"
proof (cases "(removeTimestamps config \<or> removeVariableMetadata config) \<and>
     (\<exists>date. fixedCreationDate config = Some date \<and> date \<noteq> [])")
  case False
  then have "ensureDeterministicPDF config s = ensureDeterministicPDF (config\<lparr>fixedCreationDate := None\<rparr>) s"
    by (auto simp: ensureDeterministicPDF_def Let_def split: option.splits)
  moreover have "\<not> inserts_creation_date config s"
    using False by (auto simp: inserts_creation_date_def split: option.splits)
  ultimately show ?thesis by blast
next
  case True
  then obtain date where d: "fixedCreationDate config = Some date" "date \<noteq> []" by blast
  define t where "t = ensureDeterministicPDF (config\<lparr>fixedCreationDate := None\<rparr>) s"
  have e: "ensureDeterministicPDF config s = insert_creation_date date t"
    using True d by (auto simp: t_def ensureDeterministicPDF_def Let_def)
  have l: "inserts_creation_date config s \<longleftrightarrow> has_Title t"
    using True d by (simp add: inserts_creation_date_def t_def)
  have "has_Title t \<longleftrightarrow> insert_creation_date date t \<noteq> t"
    by (rule insert_creation_date_cases [of t date]) simp_all
  then show ?thesis unfolding l e t_def .
qed

text \<open>
  C2, as the code has it. For every configuration and every input such that the run
  inserts no creation date (no \<open>fixedCreationDate\<close>, or both flags off, or no
  \<open>/Title (...)\<close> entry to insert it after) and no entry that the run deletes stands
  directly after a proper beginning of the key of an entry that the run deletes,
  normalising twice gives the bytes of normalising once.
\<close>

theorem ensureDeterministicPDF_idempotent:
  assumes wd: "well_delimited config s" and ni: "\<not> inserts_creation_date config s"
  shows "ensureDeterministicPDF config (ensureDeterministicPDF config s) = ensureDeterministicPDF config s"
proof -
  define fin where "fin = (\<lambda>y. case fixedCreationDate config of
      Some date \<Rightarrow> if date \<noteq> [] then insert_creation_date date y else y | None \<Rightarrow> y)"
  have core: "ensureDeterministicPDF config (ensureDeterministicPDF config s) = ensureDeterministicPDF config s"
    if run: "\<And>x. ensureDeterministicPDF config x = fin (P x)"
      and plain: "ensureDeterministicPDF (config\<lparr>fixedCreationDate := None\<rparr>) s = P s"
      and fixed: "P (P s) = P s" for P
  proof -
    have "ensureDeterministicPDF config s = P s"
      using ni plain by (simp add: inserts_creation_date_iff)
    then have "ensureDeterministicPDF config (ensureDeterministicPDF config s) = fin (P (P s))"
      using run by simp
    then show ?thesis using fixed run by simp
  qed
  consider (off) "\<not> removeTimestamps config" "\<not> removeVariableMetadata config"
    | (ts) "removeTimestamps config" "\<not> removeVariableMetadata config"
    | (vm) "\<not> removeTimestamps config" "removeVariableMetadata config"
    | (both) "removeTimestamps config" "removeVariableMetadata config"
    by blast
  then show ?thesis
  proof cases
    case off
    then show ?thesis by (simp add: ensureDeterministicPDF_def)
  next
    case ts
    have sf: "splice_free ''/CreationDate ('' ''/CreationDate ('' CHR '')'' False s"
      "splice_free ''/CreationDate ('' ''/ModDate ('' CHR '')'' False s"
      "splice_free ''/ModDate ('' ''/CreationDate ('' CHR '')'' False s"
      "splice_free ''/ModDate ('' ''/ModDate ('' CHR '')'' False s"
      using wd ts by (simp_all add: well_delimited_def removed_def)
    have "strip_timestamps (strip_timestamps s) = strip_timestamps s"
      by (intro strip_timestamps_fixed strip_timestamps_clears [OF sf])
    then show ?thesis
      using ts by (intro core [of strip_timestamps])
        (simp_all add: ensureDeterministicPDF_def fin_def Let_def)
  next
    case vm
    have sf: "splice_free ''/ID ['' ''/ID ['' CHR '']'' True s"
      using wd vm by (simp_all add: well_delimited_def removed_def)
    have "strip_variable_metadata (strip_variable_metadata s) = strip_variable_metadata s"
      by (intro strip_variable_metadata_fixed strip_variable_metadata_clears [OF sf]
          strip_variable_metadata_values)
    then show ?thesis
      using vm by (intro core [of strip_variable_metadata])
        (simp_all add: ensureDeterministicPDF_def fin_def Let_def)
  next
    case both
    have sf: "splice_free ''/CreationDate ('' ''/CreationDate ('' CHR '')'' False s"
      "splice_free ''/CreationDate ('' ''/ModDate ('' CHR '')'' False s"
      "splice_free ''/CreationDate ('' ''/ID ['' CHR '']'' True s"
      "splice_free ''/ModDate ('' ''/CreationDate ('' CHR '')'' False s"
      "splice_free ''/ModDate ('' ''/ModDate ('' CHR '')'' False s"
      "splice_free ''/ModDate ('' ''/ID ['' CHR '']'' True s"
      "splice_free ''/ID ['' ''/CreationDate ('' CHR '')'' False s"
      "splice_free ''/ID ['' ''/ModDate ('' CHR '')'' False s"
      "splice_free ''/ID ['' ''/ID ['' CHR '']'' True s"
      using wd both by (simp_all add: well_delimited_def removed_def)
    let ?t = "strip_variable_metadata (strip_timestamps s)"
    note cl = strip_both_clears [OF sf]
    have t1: "strip_timestamps ?t = ?t"
      by (rule strip_timestamps_fixed [OF cl(1,2)])
    have t2: "strip_variable_metadata ?t = ?t"
      by (intro strip_variable_metadata_fixed cl(3) strip_variable_metadata_values)
    have "strip_variable_metadata (strip_timestamps ?t) = ?t" by (simp add: t1 t2)
    then show ?thesis
      using both by (intro core [of "\<lambda>x. strip_variable_metadata (strip_timestamps x)"])
        (simp_all add: ensureDeterministicPDF_def fin_def Let_def)
  qed
qed

definition dated_config :: DeterministicConfig where
  "dated_config =
     \<lparr>removeTimestamps = True, fixedCreationDate = Some ''D:20240101000000Z'', removeVariableMetadata = True\<rparr>"

definition untitled_pdf :: string where
  "untitled_pdf = ''<</URI (https://example.com//jo)/Creator (Chromium)/CreationDate (D:20240101000000+00)>>/ID [<ab><cd>]''"

lemma untitled_pdf_normalised:
  "ensureDeterministicPDF dated_config untitled_pdf = ''<</URI (https://example.com//jo)/Creator (Resume PDF Generator)>>''"
  by code_simp

theorem ensureDeterministicPDF_idempotent_witness:
  "well_delimited dated_config untitled_pdf \<and> \<not> inserts_creation_date dated_config untitled_pdf \<and>
   ensureDeterministicPDF dated_config
     ''<</URI (https://example.com//jo)/Creator (Resume PDF Generator)>>'' =
     ''<</URI (https://example.com//jo)/Creator (Resume PDF Generator)>>''"
proof -
  have h: "well_delimited dated_config untitled_pdf" "\<not> inserts_creation_date dated_config untitled_pdf"
    by code_simp+
  show ?thesis
    using ensureDeterministicPDF_idempotent [OF h] h by (simp add: untitled_pdf_normalised)
qed

text \<open>
  With a fixed creation date and a title, every pass removes the entry inserted by the
  pass before, leaves its line break, and inserts the entry again: the file grows by one
  byte each time. On a text where a deletion completes a key, the second pass deletes
  again.
\<close>

theorem ensureDeterministicPDF_idempotent_counterexample:
  "ensureDeterministicPDF dated_config (ensureDeterministicPDF dated_config ''<</Title (Jo - Resume)>>'')
     \<noteq> ensureDeterministicPDF dated_config ''<</Title (Jo - Resume)>>'' \<and>
   ensureDeterministicPDF DEFAULT_DETERMINISTIC_CONFIG
       (ensureDeterministicPDF DEFAULT_DETERMINISTIC_CONFIG ''/Creation/CreationDate (a)Date (b)'')
     \<noteq> ensureDeterministicPDF DEFAULT_DETERMINISTIC_CONFIG ''/Creation/CreationDate (a)Date (b)'' \<and>
   inserts_creation_date dated_config ''<</Title (Jo - Resume)>>'' \<and>
   ensureDeterministicPDF dated_config ''<</Title (Jo - Resume)>>'' =
     ''<</Title (Jo - Resume)'' @ [CHR 0x0A] @ ''/CreationDate (D:20240101000000Z)>>'' \<and>
   ensureDeterministicPDF dated_config (ensureDeterministicPDF dated_config ''<</Title (Jo - Resume)>>'') =
     ''<</Title (Jo - Resume)'' @ [CHR 0x0A] @ ''/CreationDate (D:20240101000000Z)'' @ [CHR 0x0A] @ ''>>'' \<and>
   \<not> well_delimited DEFAULT_DETERMINISTIC_CONFIG ''/Creation/CreationDate (a)Date (b)'' \<and>
   ensureDeterministicPDF DEFAULT_DETERMINISTIC_CONFIG ''/Creation/CreationDate (a)Date (b)'' = ''/CreationDate (b)'' \<and>
   ensureDeterministicPDF DEFAULT_DETERMINISTIC_CONFIG ''/CreationDate (b)'' = []"
  by code_simp

section \<open>Template renderer (templates/html-generator.ts)\<close>

subsection \<open>The data and the Handlebars runtime\<close>

text \<open>
  The data is whatever JSON the caller passes (\<open>resumeData: unknown\<close>). A property that
  is not there is \<open>undefined\<close>: \<open>None\<close> below. Objects are lists of key and value with
  unique keys. Numbers are the integers; texts are strings of bytes (UTF-8).
\<close>

datatype json =
  JNull | JBool bool | JNum int | JStr string | JArr "json list" | JObj "(string \<times> json) list"

type_synonym 'a result = "js_error + 'a"

definition lookup :: "string \<Rightarrow> json \<Rightarrow> json option" where
  "lookup k v = (case v of JObj kvs \<Rightarrow> map_of kvs k | _ \<Rightarrow> None)"

definition lookup_in :: "string \<Rightarrow> json option \<Rightarrow> json option" where
  "lookup_in k v = (case v of Some obj \<Rightarrow> lookup k obj | None \<Rightarrow> None)"

text \<open>JavaScript's truthiness: \<open>undefined\<close>, \<open>null\<close>, \<open>false\<close>, 0 and the empty string are
  falsy.\<close>

fun js_truthy :: "json option \<Rightarrow> bool" where
  "js_truthy None = False"
| "js_truthy (Some JNull) = False"
| "js_truthy (Some (JBool b)) = b"
| "js_truthy (Some (JNum n)) = (n \<noteq> 0)"
| "js_truthy (Some (JStr s)) = (s \<noteq> [])"
| "js_truthy (Some (JArr xs)) = True"
| "js_truthy (Some (JObj kvs)) = True"

text \<open>The test of \<open>#if\<close> and \<open>#unless\<close>: the empty array fails it too.\<close>

definition truthy :: "json option \<Rightarrow> bool" where
  "truthy v \<longleftrightarrow> js_truthy v \<and> v \<noteq> Some (JArr [])"

definition digit_char :: "nat \<Rightarrow> char" where
  "digit_char n = char_of (48 + n)"

function show_nat :: "nat \<Rightarrow> string" where
  "show_nat n = (if n < 10 then [digit_char n] else show_nat (n div 10) @ [digit_char (n mod 10)])"
  by pat_completeness auto
termination
  by (relation "measure id") auto

definition show_int :: "int \<Rightarrow> string" where
  "show_int i = (if i < 0 then CHR ''-'' # show_nat (nat (- i)) else show_nat (nat i))"

fun intercalate :: "string \<Rightarrow> string list \<Rightarrow> string" where
  "intercalate sep [] = []"
| "intercalate sep [x] = x"
| "intercalate sep (x # y # ys) = x @ sep @ intercalate sep (y # ys)"

text \<open>\<open>String(v)\<close>; inside an array, \<open>null\<close> is the empty string.\<close>

fun js_to_string :: "json \<Rightarrow> string" where
  "js_to_string JNull = ''null''"
| "js_to_string (JBool b) = (if b then ''true'' else ''false'')"
| "js_to_string (JNum n) = show_int n"
| "js_to_string (JStr s) = s"
| "js_to_string (JArr xs) =
     intercalate '','' (map (\<lambda>x. if x = JNull then [] else js_to_string x) xs)"
| "js_to_string (JObj kvs) = ''[object Object]''"

definition escape_char :: "char \<Rightarrow> string" where
  "escape_char c =
     (if c = CHR ''&'' then ''&amp;''
      else if c = CHR ''<'' then ''&lt;''
      else if c = CHR ''>'' then ''&gt;''
      else if c = CHR 0x22 then ''&quot;''
      else if c = CHR 0x27 then ''&#x27;''
      else if c = CHR 0x60 then ''&#x60;''
      else if c = CHR ''='' then ''&#x3D;''
      else [c])"

definition escape_html :: "string \<Rightarrow> string" where
  "escape_html s = concat (map escape_char s)"

definition escapeExpression :: "json option \<Rightarrow> string" where
  "escapeExpression v =
     (case v of None \<Rightarrow> [] | Some JNull \<Rightarrow> [] | Some x \<Rightarrow> escape_html (js_to_string x))"

text \<open>
  A rendered piece is a text, or the error thrown while rendering it. \<open>cat\<close> renders the
  pieces from left to right: the first error ends the rendering.
\<close>

fun cat :: "string result list \<Rightarrow> string result" where
  "cat [] = Inr []"
| "cat (Inl e # ps) = Inl e"
| "cat (Inr s # ps) = (case cat ps of Inl e \<Rightarrow> Inl e | Inr t \<Rightarrow> Inr (s @ t))"

definition lit :: "string \<Rightarrow> string result" where
  "lit s = Inr s"

definition esc :: "json option \<Rightarrow> string result" where
  "esc v = Inr (escapeExpression v)"

definition helper :: "string result \<Rightarrow> string result" where
  "helper r = (case r of Inl e \<Rightarrow> Inl e | Inr s \<Rightarrow> Inr (escape_html s))"

definition if_block :: "json option \<Rightarrow> string result \<Rightarrow> string result" where
  "if_block v body = (if truthy v then body else Inr [])"

definition unless_block :: "bool \<Rightarrow> string result \<Rightarrow> string result" where
  "unless_block b body = (if b then Inr [] else body)"

text \<open>\<open>#each\<close> renders its body for the elements of an array, or the values of an object, in
  order; for anything else it renders nothing.\<close>

definition each_block :: "json option \<Rightarrow> (json \<Rightarrow> string result) \<Rightarrow> string result" where
  "each_block v body =
     (case v of
        Some (JArr xs) \<Rightarrow> cat (map body xs)
      | Some (JObj kvs) \<Rightarrow> cat (map (\<lambda>kv. body (snd kv)) kvs)
      | _ \<Rightarrow> Inr [])"

definition bullet :: string where
  "bullet = [CHR 0xE2, CHR 0x80, CHR 0xA2]"

subsection \<open>The date helpers\<close>

text \<open>
  What the helpers need from the host: the offset of local time from UTC in minutes
  (taken as constant), and what \<open>new Date(s)\<close> followed by the formatting gives for a
  text \<open>s\<close> that holds a \<open>T\<close> (an ISO date and time): \<open>iso_month_year\<close> for \<open>formatDate\<close>
  (the month and year, or "Invalid Date"), \<open>iso_year\<close> for \<open>formatYear\<close> (the year, or
  nothing). \<open>run_other\<close> is what Handlebars renders from a template source other than
  the one of this program.
\<close>

record host =
  tz_minutes :: int
  iso_month_year :: "string \<Rightarrow> string"
  iso_year :: "string \<Rightarrow> string"
  run_other :: "string \<Rightarrow> json \<Rightarrow> bool \<Rightarrow> string result"

fun split_on :: "char \<Rightarrow> string \<Rightarrow> string list" where
  "split_on c [] = [[]]"
| "split_on c (x # xs) =
     (if x = c then [] # split_on c xs
      else (case split_on c xs of [] \<Rightarrow> [[x]] | p # ps \<Rightarrow> (x # p) # ps))"

definition is_digit :: "char \<Rightarrow> bool" where
  "is_digit c \<longleftrightarrow> (48::nat) \<le> of_char c \<and> (of_char c :: nat) \<le> 57"

definition digits_value :: "string \<Rightarrow> int" where
  "digits_value s = foldl (\<lambda>a c. 10 * a + (of_char c - 48)) 0 s"

definition is_space :: "char \<Rightarrow> bool" where
  "is_space c \<longleftrightarrow> c \<in> set [CHR 0x20, CHR 0x09, CHR 0x0A, CHR 0x0B, CHR 0x0C, CHR 0x0D]"

definition trim :: "string \<Rightarrow> string" where
  "trim s = rev (dropWhile is_space (rev (dropWhile is_space s)))"

text \<open>
  \<open>Number(s)\<close> for the texts between the dashes of a date: white space around is dropped,
  the empty text is 0, a run of digits is its value. \<open>None\<close> is \<open>NaN\<close>. This is
  \<open>Number\<close> on the parts of a date of the form YYYY-MM-DD. Outside that form it is not:
  the other numeric literals of JavaScript (sign, fraction, exponent, radix prefix,
  \<open>Infinity\<close>) are read as \<open>NaN\<close> here, and a run of digits too long for a double
  keeps its exact value.
\<close>

definition js_Number :: "string \<Rightarrow> int option" where
  "js_Number s =
     (let t = trim s
      in if t = [] then Some 0 else if list_all is_digit t then Some (digits_value t) else None)"

text \<open>The proleptic Gregorian calendar: the day number (days since 1970-01-01) of a date,
  and back.\<close>

definition days_from_civil :: "int \<Rightarrow> int \<Rightarrow> int \<Rightarrow> int" where
  "days_from_civil y m d =
     (let y' = (if m \<le> 2 then y - 1 else y);
          era = y' div 400;
          yoe = y' - era * 400;
          doy = (153 * (if m > 2 then m - 3 else m + 9) + 2) div 5 + d - 1;
          doe = yoe * 365 + yoe div 4 - yoe div 100 + doy
      in era * 146097 + doe - 719468)"

definition civil_from_days :: "int \<Rightarrow> int \<times> int \<times> int" where
  "civil_from_days z =
     (let z' = z + 719468;
          era = z' div 146097;
          doe = z' - era * 146097;
          yoe = (doe - doe div 1460 + doe div 36524 - doe div 146096) div 365;
          doy = doe - (365 * yoe + yoe div 4 - yoe div 100);
          mp = (5 * doy + 2) div 153;
          d = doy - (153 * mp + 2) div 5 + 1;
          m = (if mp < 10 then mp + 3 else mp - 9)
      in ((if m \<le> 2 then yoe + era * 400 + 1 else yoe + era * 400), m, d))"

definition msPerDay :: int where
  "msPerDay = 86400000"

text \<open>
  \<open>new Date(year, monthIndex, day)\<close>: local time. A year from 0 to 99 means 1900 plus
  it; a month index outside 0..11 and a day outside the month carry over. The result is
  the time value in milliseconds since the epoch (UTC), or \<open>None\<close> for an invalid date
  (out of the range of time values).
\<close>

definition new_Date :: "int \<Rightarrow> int \<Rightarrow> int \<Rightarrow> int \<Rightarrow> int option" where
  "new_Date tz year monthIndex day =
     (let yr = (if 0 \<le> year \<and> year \<le> 99 then 1900 + year else year);
          ym = yr + monthIndex div 12;
          mn = monthIndex mod 12;
          dayno = days_from_civil ym (mn + 1) 1 + day - 1;
          t = dayno * msPerDay - tz * 60000
      in if \<bar>t\<bar> \<le> 8640000000000000 then Some t else None)"

definition month_name :: "int \<Rightarrow> string" where
  "month_name m =
     [''January'', ''February'', ''March'', ''April'', ''May'', ''June'', ''July'', ''August'',
      ''September'', ''October'', ''November'', ''December''] ! nat (m - 1)"

text \<open>\<open>toLocaleDateString('en-US', {year: 'numeric', month: 'long'})\<close>, for a date of the
  common era.\<close>

definition toLocaleDateString :: "int \<Rightarrow> int \<Rightarrow> string" where
  "toLocaleDateString tz t =
     (case civil_from_days ((t + tz * 60000) div msPerDay) of
        (y, m, d) \<Rightarrow> month_name m @ '' '' @ show_int y)"

definition not_a_function :: "string \<Rightarrow> js_error" where
  "not_a_function what = Error None (what @ '' is not a function'')"

definition formatDate :: "host \<Rightarrow> json option \<Rightarrow> string result" where
  "formatDate h dateString =
     (if \<not> js_truthy dateString then Inr ''Present''
      else
        (case dateString of
           Some (JStr s) \<Rightarrow>
             if CHR ''T'' \<in> set s then Inr (iso_month_year h s)
             else
               (let parts = map js_Number (split_on CHR ''-'' s)
                in case parts of
                     Some year # Some month # Some day # _ \<Rightarrow>
                       (case new_Date (tz_minutes h) year (month - 1) day of
                          None \<Rightarrow> Inr ''Invalid Date''
                        | Some t \<Rightarrow> Inr (toLocaleDateString (tz_minutes h) t))
                   | _ \<Rightarrow> Inr ''Invalid Date'')
         | Some (JArr xs) \<Rightarrow>
             if JStr ''T'' \<in> set xs then Inr (iso_month_year h (js_to_string (JArr xs)))
             else Inl (not_a_function ''dateString.split'')
         | _ \<Rightarrow> Inl (not_a_function ''dateString.includes'')))"

definition formatYear :: "host \<Rightarrow> json option \<Rightarrow> string result" where
  "formatYear h dateString =
     (if \<not> js_truthy dateString then Inr []
      else
        (case dateString of
           Some (JStr s) \<Rightarrow>
             if CHR ''T'' \<in> set s then Inr (iso_year h s)
             else
               (case js_Number (hd (split_on CHR ''-'' s)) of
                  None \<Rightarrow> Inr ''NaN''
                | Some year \<Rightarrow> Inr (show_int year))
         | Some (JArr xs) \<Rightarrow>
             if JStr ''T'' \<in> set xs then Inr (iso_year h (js_to_string (JArr xs)))
             else Inl (not_a_function ''dateString.split'')
         | _ \<Rightarrow> Inl (not_a_function ''dateString.includes'')))"

definition join :: "json option \<Rightarrow> string result" where
  "join array =
     (case array of
        Some (JArr xs) \<Rightarrow> Inr (intercalate '', '' (map (\<lambda>x. if x = JNull then [] else js_to_string x) xs))
      | _ \<Rightarrow> Inr [])"

subsection \<open>The template\<close>

text \<open>
  The one template of the program, piece by piece: a literal text is \<open>lit\<close>, \<open>{{x}}\<close> is
  \<open>esc\<close> (the value, HTML-escaped), \<open>{{helper x}}\<close> is \<open>helper\<close> (the helper's result,
  HTML-escaped), blocks are \<open>if_block\<close>, \<open>unless_block\<close> and \<open>each_block\<close>. In the body of
  \<open>#each\<close>, \<open>item\<close> is the context \<open>this\<close>. A block tag alone on its line takes the line
  with it, as Handlebars has it; the literals below are what is left. The long literals
  (the document head and the style sheet) are the constants \<open>page_text_1\<close> to
  \<open>page_text_5\<close>, line by line.
\<close>

definition page_text_1 :: string where
  \<open>page_text_1 = concat
     [''<!DOCTYPE html>\<newline>'',
      ''<html lang="en">\<newline>'',
      ''<head>\<newline>'',
      ''  <meta charset="UTF-8">\<newline>'',
      ''  <meta name="viewport" content="width=device-width, initial-scale=1.0">\<newline>'',
      ''  <title>'']\<close>

definition page_text_2 :: string where
  \<open>page_text_2 = concat
     ['' - Resume</title>\<newline>'',
      ''  <style>\<newline>'',
      ''    @page {\<newline>'',
      ''      size: letter;\<newline>'',
      ''      margin: 0.5in;\<newline>'',
      ''    }\<newline>'',
      ''    body {\<newline>'',
      ''      font-family: Arial, sans-serif;\<newline>'',
      ''      font-size: 11pt;\<newline>'',
      ''      line-height: 1.3;\<newline>'',
      ''      color: #000;\<newline>'',
      ''      margin: 0;\<newline>'',
      ''      padding: 0;\<newline>'',
      ''      max-width: 7.5in;\<newline>'',
      ''      background: white;\<newline>'',
      ''    }\<newline>'',
      ''    h1 { \<newline>'',
      ''      font-size: 20pt; \<newline>'',
      ''      font-weight: bold;\<newline>'',
      ''      margin: 0 0 8px 0; \<newline>'',
      ''      text-align: center;\<newline>'',
      ''      color: #000;\<newline>'',
      ''    }\<newline>'',
      ''    h2 { \<newline>'',
      ''      font-size: 12pt; \<newline>'',
      ''      font-weight: bold;\<newline>'',
      ''      margin: 16px 0 8px 0; \<newline>'',
      ''      '']\<close>

definition page_text_3 :: string where
  \<open>page_text_3 = concat
     [''\<newline>'',
      ''      color: #000;\<newline>'',
      ''    }\<newline>'',
      ''    h3 { \<newline>'',
      ''      font-size: 11pt; \<newline>'',
      ''      font-weight: bold;\<newline>'',
      ''      margin: 10px 0 3px 0; \<newline>'',
      ''      color: #000;\<newline>'',
      ''    }\<newline>'',
      ''    p {\<newline>'',
      ''      margin: 3px 0;\<newline>'',
      ''    }\<newline>'',
      ''    .contact-info { \<newline>'',
      ''      text-align: center;\<newline>'',
      ''      margin-bottom: 20px; \<newline>'',
      ''      font-size: 10pt;\<newline>'',
      ''    }\<newline>'',
      ''    .contact-info span { \<newline>'',
      ''      margin: 0 8px;\<newline>'',
      ''      color: #000;\<newline>'',
      ''    }\<newline>'',
      ''    .work-entry, .education-entry { \<newline>'',
      ''      margin-bottom: 12px; \<newline>'',
      ''    }\<newline>'',
      ''    .job-header {\<newline>'',
      ''      '']\<close>

definition page_text_4 :: string where
  \<open>page_text_4 = concat
     [''\<newline>'',
      ''      margin-bottom: 2px;\<newline>'',
      ''    }\<newline>'',
      ''    .job-title { \<newline>'',
      ''      font-weight: bold; \<newline>'',
      ''      font-size: 11pt;\<newline>'',
      ''    }\<newline>'',
      ''    .company { \<newline>'',
      ''      font-weight: normal;\<newline>'',
      ''      font-style: italic; \<newline>'',
      ''      font-size: 11pt;\<newline>'',
      ''      color: #5e5e5e;\<newline>'',
      ''    }\<newline>'',
      ''    .dates-location { \<newline>'',
      ''      font-size: 10pt;\<newline>'',
      ''      color: #000;\<newline>'',
      ''      text-align: right;\<newline>'',
      ''    }\<newline>'',
      ''    .highlights { \<newline>'',
      ''      margin: 5px 0 0 0; \<newline>'',
      ''      padding-left: 16px;\<newline>'',
      ''    }\<newline>'',
      ''    .highlights li { \<newline>'',
      ''      margin-bottom: 3px; \<newline>'',
      ''      font-size: 10pt;\<newline>'',
      ''      line-height: 1.2;\<newline>'',
      ''    }\<newline>'',
      ''    .skills-section { \<newline>'',
      ''      margin-top: 8px; \<newline>'',
      ''    }\<newline>'',
      ''    .skill-category { \<newline>'',
      ''      margin-bottom: 6px; \<newline>'',
      ''      font-size: 10pt;\<newline>'',
      ''    }\<newline>'',
      ''    .skill-name { \<newline>'',
      ''      font-weight: bold; \<newline>'',
      ''      color: #000;\<newline>'',
      ''    }\<newline>'',
      ''    .keywords { \<newline>'',
      ''      color: #000; \<newline>'',
      ''      font-weight: normal;\<newline>'',
      ''    }\<newline>'',
      ''    .education-details {\<newline>'',
      ''      font-size: 10pt;\<newline>'',
      ''      margin-top: 2px;\<newline>'',
      ''    }\<newline>'',
      ''  '']\<close>

definition page_text_5 :: string where
  \<open>page_text_5 = concat
     [''</style>\<newline>'',
      ''</head>\<newline>'',
      ''<body>\<newline>'',
      ''  <header>\<newline>'',
      ''    <h1>'']\<close>

definition work_highlight :: "json \<Rightarrow> string result" where
  \<open>work_highlight item =
     cat
       [lit ''        <li>'',
        esc (Some item),
        lit ''</li>\<newline>'']\<close>

definition work_entry :: "host \<Rightarrow> json \<Rightarrow> string result" where
  \<open>work_entry h item =
     cat
       [lit ''    <div class="work-entry">\<newline>      <div class="job-header">\<newline>        <div>\<newline>          <div class="job-title">'',
        esc (lookup ''position'' item),
        lit ''</div>\<newline>          <div class="company">'',
        esc (lookup ''name'' item),
        lit ''</div>\<newline>        </div>\<newline>        <div class="dates-location">\<newline>          '',
        helper (formatDate h (lookup ''startDate'' item)),
        lit '' - '',
        helper (formatDate h (lookup ''endDate'' item)),
        if_block (lookup ''location'' item)
           (cat
           [lit '', '',
            esc (lookup ''location'' item)]),
        lit ''\<newline>        </div>\<newline>      </div>\<newline>      '',
        if_block (lookup ''summary'' item)
           (cat
           [lit ''<p style="font-size: 10pt; margin: 3px 0;">'',
            esc (lookup ''summary'' item),
            lit ''</p>'']),
        lit ''\<newline>'',
        if_block (lookup ''highlights'' item)
           (cat
           [lit ''      <ul class="highlights">\<newline>'',
            each_block (lookup ''highlights'' item) work_highlight,
            lit ''      </ul>\<newline>'']),
        lit ''    </div>\<newline>'']\<close>

definition education_entry :: "host \<Rightarrow> json \<Rightarrow> string result" where
  \<open>education_entry h item =
     cat
       [lit ''    <div class="education-entry">\<newline>      <h3>'',
        esc (lookup ''studyType'' item),
        if_block (lookup ''area'' item)
           (cat
           [lit '' - '',
            esc (lookup ''area'' item)]),
        lit ''</h3>\<newline>      <div class="education-details">'',
        esc (lookup ''institution'' item),
        if_block (lookup ''location'' item)
           (cat
           [lit ('' '' @ bullet @ '' ''),
            esc (lookup ''location'' item)]),
        if_block (lookup ''endDate'' item)
           (cat
           [lit ('' '' @ bullet @ '' ''),
            helper (formatYear h (lookup ''endDate'' item))]),
        lit ''</div>\<newline>      '',
        if_block (lookup ''startDate'' item)
           (cat
           [lit ''<p style="font-size: 10pt;">'',
            helper (formatDate h (lookup ''startDate'' item)),
            lit '' - '',
            helper (formatDate h (lookup ''endDate'' item)),
            lit ''</p>'']),
        lit ''\<newline>      '',
        if_block (lookup ''gpa'' item)
           (cat
           [lit ''<p style="font-size: 10pt;">GPA: '',
            esc (lookup ''gpa'' item),
            lit ''</p>'']),
        lit ''\<newline>    </div>\<newline>'']\<close>

definition project_highlight :: "json \<Rightarrow> string result" where
  \<open>project_highlight item =
     cat
       [lit ''        <li>'',
        esc (Some item),
        lit ''</li>\<newline>'']\<close>

definition project_entry :: "host \<Rightarrow> json \<Rightarrow> string result" where
  \<open>project_entry h item =
     cat
       [lit ''    <div class="work-entry">\<newline>      <h3>'',
        esc (lookup ''name'' item),
        lit ''</h3>\<newline>      '',
        if_block (lookup ''startDate'' item)
           (cat
           [lit ''<p class="dates">'',
            helper (formatDate h (lookup ''startDate'' item)),
            lit '' - '',
            helper (formatDate h (lookup ''endDate'' item)),
            lit ''</p>'']),
        lit ''\<newline>      '',
        if_block (lookup ''description'' item)
           (cat
           [lit ''<p style="margin: 8px 0;">'',
            esc (lookup ''description'' item),
            lit ''</p>'']),
        lit ''\<newline>'',
        if_block (lookup ''highlights'' item)
           (cat
           [lit ''      <ul class="highlights">\<newline>'',
            each_block (lookup ''highlights'' item) project_highlight,
            lit ''      </ul>\<newline>'']),
        lit ''    </div>\<newline>'']\<close>

definition skill_entry :: "json \<Rightarrow> string result" where
  \<open>skill_entry item =
     cat
       [lit ''      <div class="skill-category">\<newline>        <span class="skill-name">'',
        esc (lookup ''name'' item),
        lit '':</span> <span class="keywords">'',
        helper (join (lookup ''keywords'' item)),
        lit ''</span>\<newline>      </div>\<newline>'']\<close>

definition page_head :: "json \<Rightarrow> bool \<Rightarrow> string result" where
  \<open>page_head data atsMode =
     cat
       [lit page_text_1,
        esc (lookup_in ''name'' (lookup ''basics'' data)),
        lit page_text_2,
        unless_block atsMode
           (cat
           [lit ''text-transform: uppercase;\<newline>      border-bottom: 1px solid #000; \<newline>      padding-bottom: 2px;'']),
        lit page_text_3,
        unless_block atsMode
           (cat
           [lit ''display: flex;\<newline>      justify-content: space-between;\<newline>      align-items: baseline;'']),
        lit page_text_4]\<close>

definition page_header :: "json \<Rightarrow> string result" where
  \<open>page_header data =
     cat
       [lit page_text_5,
        esc (lookup_in ''name'' (lookup ''basics'' data)),
        lit ''</h1>\<newline>    '',
        if_block (lookup_in ''label'' (lookup ''basics'' data))
           (cat
           [lit ''<p style="text-align: center; margin: 5px 0 15px 0; font-size: 14pt; font-weight: bold; color: #000;">'',
            esc (lookup_in ''label'' (lookup ''basics'' data)),
            lit ''</p>'']),
        lit ''\<newline>    <div class="contact-info">\<newline>      '',
        if_block (lookup_in ''city'' (lookup_in ''location'' (lookup ''basics'' data)))
           (cat
           [lit ''<span>'',
            esc (lookup_in ''city'' (lookup_in ''location'' (lookup ''basics'' data))),
            if_block (lookup_in ''region'' (lookup_in ''location'' (lookup ''basics'' data)))
               (cat
               [lit '', '',
                esc (lookup_in ''region'' (lookup_in ''location'' (lookup ''basics'' data)))]),
            lit ''</span>'']),
        lit ''\<newline>      '',
        if_block (lookup_in ''email'' (lookup ''basics'' data))
           (cat
           [lit ''<span><strong>Email:</strong> '',
            esc (lookup_in ''email'' (lookup ''basics'' data)),
            lit ''</span>'']),
        lit ''\<newline>      '',
        if_block (lookup_in ''phone'' (lookup ''basics'' data))
           (cat
           [lit ''<span><strong>Phone:</strong> '',
            esc (lookup_in ''phone'' (lookup ''basics'' data)),
            lit ''</span>'']),
        lit ''\<newline>      '',
        if_block (lookup_in ''url'' (lookup ''basics'' data))
           (cat
           [lit ''<span>'',
            esc (lookup_in ''url'' (lookup ''basics'' data)),
            lit ''</span>'']),
        lit ''\<newline>    </div>\<newline>    '',
        if_block (lookup_in ''summary'' (lookup ''basics'' data))
           (cat
           [lit ''<p style="text-align: center; margin-bottom: 20px; font-style: italic;">'',
            esc (lookup_in ''summary'' (lookup ''basics'' data)),
            lit ''</p>'']),
        lit ''\<newline>  </header>\<newline>\<newline>'']\<close>

definition work_section :: "host \<Rightarrow> json \<Rightarrow> string result" where
  \<open>work_section h data =
     if_block (lookup ''work'' data)
       (cat
        [lit ''  <section>\<newline>    <h2>Work Experience</h2>\<newline>'',
         each_block (lookup ''work'' data) (work_entry h),
         lit ''  </section>\<newline>''])\<close>

definition education_section :: "host \<Rightarrow> json \<Rightarrow> string result" where
  \<open>education_section h data =
     if_block (lookup ''education'' data)
       (cat
        [lit ''  <section>\<newline>    <h2>Education</h2>\<newline>'',
         each_block (lookup ''education'' data) (education_entry h),
         lit ''  </section>\<newline>''])\<close>

definition projects_section :: "host \<Rightarrow> json \<Rightarrow> string result" where
  \<open>projects_section h data =
     if_block (lookup ''projects'' data)
       (cat
        [lit ''  <section>\<newline>    <h2>Projects</h2>\<newline>'',
         each_block (lookup ''projects'' data) (project_entry h),
         lit ''  </section>\<newline>''])\<close>

definition skills_section :: "json \<Rightarrow> string result" where
  \<open>skills_section data =
     if_block (lookup ''skills'' data)
       (cat
        [lit ''  <section>\<newline>    <h2>Skills</h2>\<newline>    <div class="skills-section">\<newline>'',
         each_block (lookup ''skills'' data) skill_entry,
         lit ''    </div>\<newline>  </section>\<newline>''])\<close>

definition template_html :: "host \<Rightarrow> json \<Rightarrow> bool \<Rightarrow> string result" where
  \<open>template_html h data atsMode =
     cat
       [page_head data atsMode,
        page_header data,
        work_section h data,
        lit ''\<newline>'',
        education_section h data,
        lit ''\<newline>'',
        projects_section h data,
        lit ''\<newline>'',
        skills_section data,
        lit ''</body>\<newline></html>'']\<close>

subsection \<open>generateHTML\<close>

datatype template_source = Resume_template | Other_template string

record PDFOptions =
  outputFile :: "string option"  \<comment> \<open>the option \<open>output\<close>\<close>
  template_opt :: "string option"  \<comment> \<open>the option \<open>template\<close>\<close>
  atsMode :: "bool option"
  dateFormat :: "string option"
  deterministic :: "bool option"
  deterministicConfig :: "DeterministicConfig option"

definition run_template :: "host \<Rightarrow> template_source delegate \<Rightarrow> json \<Rightarrow> bool \<Rightarrow> string result" where
  "run_template h t data ats =
     (case source t of
        Resume_template \<Rightarrow> template_html h data ats
      | Other_template s \<Rightarrow> run_other h s data ats)"

text \<open>
  The template name only chooses the cache key; the source compiled is always the one
  template. The options' \<open>atsMode\<close> and \<open>templateName\<close> are put over the data's own
  properties of these names; the template reads \<open>atsMode\<close> only. The check of the result
  for external references only logs. The result is the HTML (or the error thrown by a
  helper) and the cache afterwards.
\<close>

definition generateHTML ::
  "host \<Rightarrow> int \<Rightarrow> int \<Rightarrow> json \<Rightarrow> PDFOptions \<Rightarrow> template_source TemplateCache
     \<Rightarrow> string result \<times> template_source TemplateCache" where
  "generateHTML h now now' resumeData options tc =
     (let templateName = (case template_opt options of
                            Some n \<Rightarrow> if n = [] then ''ats-optimized'' else n
                          | None \<Rightarrow> ''ats-optimized'');
          cacheKey = (if templateName = ''professional'' then ''professional'' else ''default'');
          (compiledTemplate, tc') = getTemplate now now' cacheKey Resume_template tc;
          htmlContent = run_template h compiledTemplate resumeData
                          (case atsMode options of Some b \<Rightarrow> b | None \<Rightarrow> False)
      in (htmlContent, tc'))"


subsection \<open>Texts that cannot hold a section's markup\<close>

text \<open>
  \<open>apart needle s\<close>: at no position of \<open>s\<close> does the text from there on begin with the
  needle, or end inside a beginning of it. Texts that are apart from a needle stay so when
  put one after the other, and none of them contains it.
\<close>


fun apart :: "string \<Rightarrow> string \<Rightarrow> bool" where
  "apart needle [] = True"
| "apart needle (x # xs) =
     (\<not> prefix (x # xs) needle \<and> \<not> prefix needle (x # xs) \<and> apart needle xs)"

lemma apart_append:
  assumes "apart needle a" and "apart needle b"
  shows "apart needle (a @ b)"
  using assms
proof (induction a)
  case Nil
  then show ?case by simp
next
  case (Cons x a)
  have "\<not> prefix ((x # a) @ b) needle"
    using Cons.prems(1) by (auto simp: prefix_def)
  moreover have "\<not> prefix needle ((x # a) @ b)"
  proof
    assume "prefix needle ((x # a) @ b)"
    then have "prefix needle (x # a) \<or> prefix (x # a) needle"
      by (metis prefix_append prefix_def)
    then show False using Cons.prems(1) by simp
  qed
  ultimately show ?case using Cons by simp
qed

lemma apart_other:
  assumes "c \<notin> set s"
  shows "apart (c # needle) s"
  using assms by (induction s) auto

lemma apart_not_sublist:
  assumes "apart needle s" and "needle \<noteq> []"
  shows "\<not> sublist needle s"
proof
  assume "sublist needle s"
  then obtain ps ss where "s = ps @ needle @ ss" by (auto simp: sublist_def)
  then show False using assms
  proof (induction ps arbitrary: s)
    case Nil
    then show ?case by (cases needle) auto
  next
    case (Cons p ps)
    then show ?case by auto
  qed
qed

text \<open>The same for a rendered piece, when it is a text, and for a list of needles.\<close>

definition apart_res :: "string \<Rightarrow> string result \<Rightarrow> bool" where
  "apart_res needle r \<longleftrightarrow> (\<forall>s. r = Inr s \<longrightarrow> apart needle s)"

lemma apart_res_cat:
  assumes "list_all (apart_res needle) ps"
  shows "apart_res needle (cat ps)"
  using assms
proof (induction ps rule: cat.induct)
  case 1
  show ?case by (simp add: apart_res_def)
next
  case (2 e ps)
  show ?case by (simp add: apart_res_def)
next
  case (3 s ps)
  then show ?case
    by (auto simp: apart_res_def apart_append split: sum.splits)
qed

lemma escape_char_lt: "CHR ''<'' \<notin> set (escape_char c)"
  by (simp add: escape_char_def)

lemma escape_html_lt: "CHR ''<'' \<notin> set (escape_html s)"
  by (auto simp: escape_html_def escape_char_lt)

lemma escapeExpression_lt: "CHR ''<'' \<notin> set (escapeExpression v)"
  by (auto simp: escapeExpression_def escape_html_lt split: option.splits json.splits)

lemma apart_res_esc: "apart_res (CHR ''<'' # needle) (esc v)"
  by (simp add: apart_res_def esc_def apart_other escapeExpression_lt)

lemma apart_res_helper: "apart_res (CHR ''<'' # needle) (helper r)"
  by (auto simp: apart_res_def helper_def apart_other escape_html_lt split: sum.splits)

lemma apart_res_lit: "apart needle s \<Longrightarrow> apart_res needle (lit s)"
  by (simp add: apart_res_def lit_def)

lemma apart_res_if: "apart_res needle body \<Longrightarrow> apart_res needle (if_block v body)"
  by (simp add: apart_res_def if_block_def)

lemma apart_res_if_absent: "\<not> truthy v \<Longrightarrow> apart_res needle (if_block v body)"
  by (simp add: apart_res_def if_block_def)

lemma apart_res_unless: "apart_res needle body \<Longrightarrow> apart_res needle (unless_block b body)"
  by (simp add: apart_res_def unless_block_def)

lemma apart_res_each:
  assumes "\<And>x. apart_res needle (body x)"
  shows "apart_res needle (each_block v body)"
proof -
  have "\<And>xs. list_all (apart_res needle) (map body xs)"
    using assms by (simp add: list_all_iff)
  then have a: "\<And>xs. apart_res needle (cat (map body xs))" by (rule apart_res_cat)
  have "\<And>kvs :: (string \<times> json) list. list_all (apart_res needle) (map (\<lambda>kv. body (snd kv)) kvs)"
    using assms by (auto simp: list_all_iff)
  then have b: "\<And>kvs :: (string \<times> json) list. apart_res needle (cat (map (\<lambda>kv. body (snd kv)) kvs))"
    by (rule apart_res_cat)
  have c: "apart_res needle (Inr [])" by (simp add: apart_res_def)
  show ?thesis
    unfolding each_block_def using a b c by (simp split: option.splits json.splits)
qed


definition clear_of :: "string list \<Rightarrow> string result \<Rightarrow> bool" where
  "clear_of ns r \<longleftrightarrow> (\<forall>n \<in> set ns. apart_res n r)"

text \<open>
  For needles that begin with \<open><\<close>, only the positions of \<open><\<close> in a literal need a look:
  \<open>lt_apart\<close> is the check that runs.
\<close>

fun diverge :: "string \<Rightarrow> string \<Rightarrow> bool" where
  "diverge [] ys = False"
| "diverge (x # xs) [] = False"
| "diverge (x # xs) (y # ys) = (if x = y then diverge xs ys else True)"

lemma diverge_iff: "diverge xs ys \<longleftrightarrow> \<not> prefix xs ys \<and> \<not> prefix ys xs"
  by (induction xs ys rule: diverge.induct) auto

fun lt_apart :: "string list \<Rightarrow> string \<Rightarrow> bool" where
  "lt_apart ns [] = True"
| "lt_apart ns (x # xs) =
     (if x = CHR ''<'' then (if list_all (diverge (x # xs)) ns then lt_apart ns xs else False)
      else lt_apart ns xs)"

lemma lt_apart_apart:
  assumes "lt_apart ns s" and "n \<in> set ns" and "prefix ''<'' n"
  shows "apart n s"
  using assms(1)
proof (induction s)
  case Nil
  show ?case by simp
next
  case (Cons x xs)
  obtain m where n: "n = CHR ''<'' # m" using assms(3) by (cases n) auto
  show ?case
  proof (cases "x = CHR ''<''")
    case True
    then have "diverge (x # xs) n" and "lt_apart ns xs"
      using Cons.prems assms(2) by (auto simp: list_all_iff split: if_splits)
    then show ?thesis using Cons.IH by (simp add: diverge_iff)
  next
    case False
    then have "lt_apart ns xs" using Cons.prems by simp
    then show ?thesis using False Cons.IH n by simp
  qed
qed

lemma clear_of_lit: "lt_apart ns s \<Longrightarrow> list_all (prefix ''<'') ns \<Longrightarrow> clear_of ns (lit s)"
  by (simp add: clear_of_def list_all_iff apart_res_lit lt_apart_apart)

lemma clear_of_mono: "clear_of ns r \<Longrightarrow> set ms \<subseteq> set ns \<Longrightarrow> clear_of ms r"
  by (auto simp: clear_of_def)

lemma prefix_lt: "prefix ''<'' n \<Longrightarrow> \<exists>m. n = CHR ''<'' # m"
  by (cases n) auto

lemma clear_of_esc: "list_all (prefix ''<'') ns \<Longrightarrow> clear_of ns (esc v)"
  unfolding clear_of_def list_all_iff using apart_res_esc prefix_lt by metis

lemma clear_of_helper: "list_all (prefix ''<'') ns \<Longrightarrow> clear_of ns (helper r)"
  unfolding clear_of_def list_all_iff using apart_res_helper prefix_lt by metis

lemma clear_of_cat_Nil: "clear_of ns (cat [])"
  by (simp add: clear_of_def apart_res_def)

lemma clear_of_cat_Cons: "clear_of ns p \<Longrightarrow> clear_of ns (cat ps) \<Longrightarrow> clear_of ns (cat (p # ps))"
  unfolding clear_of_def apart_res_def
  by (cases p) (auto simp: apart_append split: sum.splits)

lemma clear_of_if: "clear_of ns body \<Longrightarrow> clear_of ns (if_block v body)"
  by (simp add: clear_of_def apart_res_if)

lemma clear_of_unless: "clear_of ns body \<Longrightarrow> clear_of ns (unless_block b body)"
  by (simp add: clear_of_def apart_res_unless)

lemma clear_of_each: "(\<And>x. clear_of ns (body x)) \<Longrightarrow> clear_of ns (each_block v body)"
  by (simp add: clear_of_def apart_res_each)

lemma clear_of_absent: "\<not> truthy v \<Longrightarrow> clear_of ns (if_block v body)"
  by (simp add: clear_of_def apart_res_if_absent)

lemmas clear_of_intros = clear_of_lit clear_of_esc clear_of_helper clear_of_cat_Nil clear_of_cat_Cons
  clear_of_if clear_of_unless clear_of_each

text \<open>The markup of the optional sections: the heading of each, and the opening tags of
  the blocks that only that section has.\<close>

definition education_marks :: "string list" where
  \<open>education_marks = [''<h2>Education</h2>'', ''<div class="education-entry">'']\<close>

definition projects_marks :: "string list" where
  \<open>projects_marks = [''<h2>Projects</h2>'']\<close>

definition skills_marks :: "string list" where
  \<open>skills_marks = [''<h2>Skills</h2>'', ''<div class="skills-section">'', ''<div class="skill-category">'']\<close>

definition all_marks :: "string list" where
  "all_marks = education_marks @ projects_marks @ skills_marks"



lemma all_marks_lt: "list_all (prefix ''<'') all_marks"
  by code_simp

lemma page_text_1_clear: "lt_apart all_marks page_text_1"
  by code_simp

lemma page_text_2_clear: "lt_apart all_marks page_text_2"
  by code_simp

lemma page_text_3_clear: "lt_apart all_marks page_text_3"
  by code_simp

lemma page_text_4_clear: "lt_apart all_marks page_text_4"
  by code_simp

lemma page_head_clear: "clear_of all_marks (page_head data ats)"
  unfolding page_head_def
  by (intro clear_of_intros page_text_1_clear page_text_2_clear page_text_3_clear page_text_4_clear
      all_marks_lt; code_simp)


definition not_education :: "string list" where
  "not_education = projects_marks @ skills_marks"

definition not_projects :: "string list" where
  "not_projects = education_marks @ skills_marks"

definition not_skills :: "string list" where
  "not_skills = education_marks @ projects_marks"

lemma marks_lt:
  "list_all (prefix ''<'') not_education" "list_all (prefix ''<'') not_projects"
  "list_all (prefix ''<'') not_skills"
  by code_simp+

lemma marks_subsets:
  "set education_marks \<subseteq> set all_marks" "set projects_marks \<subseteq> set all_marks"
  "set skills_marks \<subseteq> set all_marks"
  "set education_marks \<subseteq> set not_projects" "set education_marks \<subseteq> set not_skills"
  "set projects_marks \<subseteq> set not_education" "set projects_marks \<subseteq> set not_skills"
  "set skills_marks \<subseteq> set not_education" "set skills_marks \<subseteq> set not_projects"
  by (auto simp: all_marks_def not_education_def not_projects_def not_skills_def)

lemma page_header_clear: "clear_of all_marks (page_header data)"
  unfolding page_header_def by (intro clear_of_intros all_marks_lt; code_simp)

lemma work_highlight_clear: "clear_of all_marks (work_highlight item)"
  unfolding work_highlight_def by (intro clear_of_intros all_marks_lt; code_simp)

lemma work_entry_clear: "clear_of all_marks (work_entry h item)"
  unfolding work_entry_def by (intro clear_of_intros work_highlight_clear all_marks_lt; code_simp)

lemma work_section_clear: "clear_of all_marks (work_section h data)"
  unfolding work_section_def by (intro clear_of_intros work_entry_clear all_marks_lt; code_simp)

lemma education_entry_clear: "clear_of not_education (education_entry h item)"
  unfolding education_entry_def by (intro clear_of_intros marks_lt; code_simp)

lemma education_section_clear: "clear_of not_education (education_section h data)"
  unfolding education_section_def by (intro clear_of_intros education_entry_clear marks_lt; code_simp)

lemma project_highlight_clear: "clear_of not_projects (project_highlight item)"
  unfolding project_highlight_def by (intro clear_of_intros marks_lt; code_simp)

lemma project_entry_clear: "clear_of not_projects (project_entry h item)"
  unfolding project_entry_def by (intro clear_of_intros project_highlight_clear marks_lt; code_simp)

lemma projects_section_clear: "clear_of not_projects (projects_section h data)"
  unfolding projects_section_def by (intro clear_of_intros project_entry_clear marks_lt; code_simp)

lemma skill_entry_clear: "clear_of not_skills (skill_entry item)"
  unfolding skill_entry_def by (intro clear_of_intros marks_lt; code_simp)

lemma skills_section_clear: "clear_of not_skills (skills_section data)"
  unfolding skills_section_def by (intro clear_of_intros skill_entry_clear marks_lt; code_simp)

lemma closing_clear:
  "clear_of all_marks (lit ''\<newline>'')" "clear_of all_marks (lit ''</body>\<newline></html>'')"
  by (intro clear_of_intros all_marks_lt; code_simp)+

lemmas everywhere_clear = page_head_clear page_header_clear work_section_clear closing_clear

lemma template_html_education:
  assumes "\<not> truthy (lookup ''education'' data)"
  shows "clear_of education_marks (template_html h data ats)"
  unfolding template_html_def
  by (intro clear_of_cat_Cons clear_of_cat_Nil
      everywhere_clear [THEN clear_of_mono, OF marks_subsets(1)]
      projects_section_clear [THEN clear_of_mono, OF marks_subsets(4)]
      skills_section_clear [THEN clear_of_mono, OF marks_subsets(5)])
     (simp add: education_section_def clear_of_absent assms)

lemma template_html_projects:
  assumes "\<not> truthy (lookup ''projects'' data)"
  shows "clear_of projects_marks (template_html h data ats)"
  unfolding template_html_def
  by (intro clear_of_cat_Cons clear_of_cat_Nil
      everywhere_clear [THEN clear_of_mono, OF marks_subsets(2)]
      education_section_clear [THEN clear_of_mono, OF marks_subsets(6)]
      skills_section_clear [THEN clear_of_mono, OF marks_subsets(7)])
     (simp add: projects_section_def clear_of_absent assms)

lemma template_html_skills:
  assumes "\<not> truthy (lookup ''skills'' data)"
  shows "clear_of skills_marks (template_html h data ats)"
  unfolding template_html_def
  by (intro clear_of_cat_Cons clear_of_cat_Nil
      everywhere_clear [THEN clear_of_mono, OF marks_subsets(3)]
      education_section_clear [THEN clear_of_mono, OF marks_subsets(8)]
      projects_section_clear [THEN clear_of_mono, OF marks_subsets(9)])
     (simp add: skills_section_def clear_of_absent assms)


lemma clear_of_sublist:
  assumes "clear_of ns r" and "r = Inr html" and "n \<in> set ns" and "n \<noteq> []"
  shows "\<not> sublist n html"
proof -
  have "apart n html" using assms(1,2,3) by (simp add: clear_of_def apart_res_def)
  then show ?thesis using assms(4) by (rule apart_not_sublist)
qed

subsection \<open>When rendering succeeds\<close>

text \<open>
  Only the date helpers can throw, and only on a date that is neither absent (or otherwise
  falsy) nor a text. \<open>dates_are_text\<close> says that the entries of the work, education and
  projects lists have such dates; the schema asks for more.
\<close>

definition ok :: "string result \<Rightarrow> bool" where
  "ok r \<longleftrightarrow> (\<exists>s. r = Inr s)"

definition elements :: "json option \<Rightarrow> json list" where
  "elements v = (case v of Some (JArr xs) \<Rightarrow> xs | Some (JObj kvs) \<Rightarrow> map snd kvs | _ \<Rightarrow> [])"

definition text_or_absent :: "json option \<Rightarrow> bool" where
  "text_or_absent v \<longleftrightarrow> (case v of Some (JStr s) \<Rightarrow> True | _ \<Rightarrow> \<not> js_truthy v)"

definition dates_are_text :: "json \<Rightarrow> bool" where
  "dates_are_text data \<longleftrightarrow>
     (\<forall>k \<in> set [''work'', ''education'', ''projects''].
        \<forall>item \<in> set (elements (lookup k data)).
          text_or_absent (lookup ''startDate'' item) \<and> text_or_absent (lookup ''endDate'' item))"

lemma ok_cat_Nil: "ok (cat [])"
  by (simp add: ok_def)

lemma ok_cat_Cons: "ok p \<Longrightarrow> ok (cat ps) \<Longrightarrow> ok (cat (p # ps))"
  by (auto simp: ok_def)

lemma ok_lit: "ok (lit s)" and ok_esc: "ok (esc v)"
  by (simp_all add: ok_def lit_def esc_def)

lemma ok_helper: "ok r \<Longrightarrow> ok (helper r)"
  by (auto simp: ok_def helper_def)

lemma ok_if: "ok body \<Longrightarrow> ok (if_block v body)" and ok_unless: "ok body \<Longrightarrow> ok (unless_block b body)"
  by (auto simp: ok_def if_block_def unless_block_def)

lemma ok_cat_map: "(\<And>x. x \<in> set xs \<Longrightarrow> ok (f x)) \<Longrightarrow> ok (cat (map f xs))"
proof (induction xs)
  case Nil
  show ?case by (simp add: ok_def)
next
  case (Cons a xs)
  have "ok (f a)" and "ok (cat (map f xs))" using Cons by simp_all
  then show ?case by (simp add: ok_cat_Cons)
qed

lemma ok_each: "(\<And>x. x \<in> set (elements v) \<Longrightarrow> ok (body x)) \<Longrightarrow> ok (each_block v body)"
proof -
  assume a: "\<And>x. x \<in> set (elements v) \<Longrightarrow> ok (body x)"
  have "each_block v body = cat (map body (elements v))"
    by (simp add: each_block_def elements_def comp_def split: option.splits json.splits)
  then show ?thesis using a by (simp add: ok_cat_map)
qed

lemma ok_formatDate: "text_or_absent v \<Longrightarrow> ok (formatDate h v)"
  by (auto simp: ok_def formatDate_def text_or_absent_def Let_def
      split: option.splits json.splits list.splits)

lemma ok_formatYear: "text_or_absent v \<Longrightarrow> ok (formatYear h v)"
  by (auto simp: ok_def formatYear_def text_or_absent_def Let_def
      split: option.splits json.splits list.splits)

lemma ok_join: "ok (join v)"
  by (auto simp: ok_def join_def split: option.splits json.splits)

lemmas ok_intros = ok_cat_Nil ok_cat_Cons ok_lit ok_esc ok_helper ok_if ok_unless ok_join

lemma ok_work_entry:
  assumes "text_or_absent (lookup ''startDate'' item)" "text_or_absent (lookup ''endDate'' item)"
  shows "ok (work_entry h item)"
  unfolding work_entry_def work_highlight_def [abs_def]
  by (intro ok_intros ok_each ok_formatDate assms)

lemma ok_education_entry:
  assumes "text_or_absent (lookup ''startDate'' item)" "text_or_absent (lookup ''endDate'' item)"
  shows "ok (education_entry h item)"
  unfolding education_entry_def
  by (intro ok_intros ok_formatDate ok_formatYear assms)

lemma ok_project_entry:
  assumes "text_or_absent (lookup ''startDate'' item)" "text_or_absent (lookup ''endDate'' item)"
  shows "ok (project_entry h item)"
  unfolding project_entry_def project_highlight_def [abs_def]
  by (intro ok_intros ok_each ok_formatDate assms)

lemma ok_template_html:
  assumes "dates_are_text data"
  shows "ok (template_html h data ats)"
proof -
  have w: "\<And>item. item \<in> set (elements (lookup ''work'' data)) \<Longrightarrow> ok (work_entry h item)"
    using assms by (intro ok_work_entry) (simp_all add: dates_are_text_def)
  have e: "\<And>item. item \<in> set (elements (lookup ''education'' data)) \<Longrightarrow> ok (education_entry h item)"
    using assms by (intro ok_education_entry) (simp_all add: dates_are_text_def)
  have p: "\<And>item. item \<in> set (elements (lookup ''projects'' data)) \<Longrightarrow> ok (project_entry h item)"
    using assms by (intro ok_project_entry) (simp_all add: dates_are_text_def)
  show ?thesis
    unfolding template_html_def page_head_def page_header_def work_section_def
      education_section_def projects_section_def skills_section_def skill_entry_def [abs_def]
    by (intro ok_intros ok_each w e p)
qed

subsection \<open>generateHTML: the template name, and absent sections\<close>

text \<open>The cache as \<open>generateHTML\<close> fills it: every delegate in it was compiled from the
  one template.\<close>

definition cache_of_resume :: "template_source TemplateCache \<Rightarrow> bool" where
  "cache_of_resume tc \<longleftrightarrow>
     (\<forall>(k, e) \<in> set (cache tc). source (template e) = Resume_template)"

lemma getTemplate_source:
  assumes "cache_of_resume tc" and "getTemplate now now' key Resume_template tc = (t, tc')"
  shows "source t = Resume_template" and "cache_of_resume tc'"
proof -
  from getTemplate_cases [OF assms(2)]
  consider e where "map_of (cache tc) key = Some e" "t = template e"
      "cache tc' = map_set key (e\<lparr>CompiledTemplate.lastUsed := now, useCount := useCount e + 1\<rparr>) (cache tc)"
    | "t = \<lparr>serial = compiled tc, source = Resume_template\<rparr>"
      "cache tc' = cleanupCache now'
         (map_set key \<lparr>template = t, compiledAt = now, lastUsed = now, useCount = 1\<rparr> (cache tc))"
    by blast
  then have "source t = Resume_template \<and> cache_of_resume tc'"
  proof cases
    case 1
    have in_cache: "(key, e) \<in> set (cache tc)" using 1(1) by (rule map_of_SomeD)
    then have src: "source (template e) = Resume_template"
      using assms(1) by (auto simp: cache_of_resume_def)
    have "set (cache tc') \<subseteq>
        insert (key, e\<lparr>CompiledTemplate.lastUsed := now, useCount := useCount e + 1\<rparr>) (set (cache tc))"
      unfolding 1(3) by (rule set_map_set)
    then have "cache_of_resume tc'"
      using assms(1) src by (fastforce simp: cache_of_resume_def)
    then show ?thesis using src 1(2) by simp
  next
    case 2
    let ?new = "\<lparr>template = t, compiledAt = now, lastUsed = now, useCount = 1\<rparr>"
    have "set (cache tc') \<subseteq> insert (key, ?new) (set (cache tc))"
      using 2(2) set_cleanupCache [of now' "map_set key ?new (cache tc)"]
        set_map_set [of key ?new "cache tc"] by auto
    then have "cache_of_resume tc'"
      using assms(1) 2(1) by (fastforce simp: cache_of_resume_def)
    then show ?thesis using 2(1) by simp
  qed
  then show "source t = Resume_template" and "cache_of_resume tc'" by simp_all
qed

lemma generateHTML_result:
  assumes "cache_of_resume tc"
  shows "fst (generateHTML h now now' resumeData options tc) =
           template_html h resumeData (case atsMode options of Some b \<Rightarrow> b | None \<Rightarrow> False)"
    and "cache_of_resume (snd (generateHTML h now now' resumeData options tc))"
proof -
  define key where "key = (if (case template_opt options of Some n \<Rightarrow> if n = [] then ''ats-optimized'' else n
      | None \<Rightarrow> ''ats-optimized'') = ''professional'' then ''professional'' else ''default'')"
  obtain t tc' where g: "getTemplate now now' key Resume_template tc = (t, tc')"
    by (cases "getTemplate now now' key Resume_template tc")
  note src = getTemplate_source [OF assms g]
  have r: "generateHTML h now now' resumeData options tc =
      (run_template h t resumeData (case atsMode options of Some b \<Rightarrow> b | None \<Rightarrow> False), tc')"
    using g by (simp add: generateHTML_def Let_def key_def)
  show "fst (generateHTML h now now' resumeData options tc) =
           template_html h resumeData (case atsMode options of Some b \<Rightarrow> b | None \<Rightarrow> False)"
    using src(1) by (simp add: r run_template_def)
  show "cache_of_resume (snd (generateHTML h now now' resumeData options tc))"
    using src(2) by (simp add: r)
qed

text \<open>
  C6. Whatever the template name in the options (none, a known one, an unknown one),
  \<open>generateHTML\<close> returns what the one template of the program renders from the data and
  the ATS flag; and for data whose dates are texts or absent this is an HTML text, not an
  error.
\<close>

theorem generateHTML_template_fallback:
  assumes "cache_of_resume tc"
  shows "fst (generateHTML h now now' resumeData (options\<lparr>template_opt := name\<rparr>) tc) =
           template_html h resumeData (case atsMode options of Some b \<Rightarrow> b | None \<Rightarrow> False)
       \<and> (dates_are_text resumeData \<longrightarrow>
            (\<exists>html. fst (generateHTML h now now' resumeData (options\<lparr>template_opt := name\<rparr>) tc) = Inr html))"
  using generateHTML_result(1) [OF assms, of h now now' resumeData "options\<lparr>template_opt := name\<rparr>"]
    ok_template_html [of resumeData h "case atsMode options of Some b \<Rightarrow> b | None \<Rightarrow> False"]
  by (simp add: ok_def)

text \<open>
  C7. In the HTML that \<open>generateHTML\<close> returns, a section that is absent from the data (or
  empty) leaves no heading and no block: without education there is no
  \<open><h2>Education</h2>\<close> and no education entry, without projects no \<open><h2>Projects</h2>\<close>,
  without skills no \<open><h2>Skills</h2>\<close>, no skills section and no skill category.
\<close>

theorem generateHTML_omits_absent_sections:
  assumes "cache_of_resume tc"
    and "fst (generateHTML h now now' resumeData options tc) = Inr html"
  shows \<open>(\<not> truthy (lookup ''education'' resumeData) \<longrightarrow>
            \<not> sublist ''<h2>Education</h2>'' html \<and> \<not> sublist ''<div class="education-entry">'' html)
       \<and> (\<not> truthy (lookup ''projects'' resumeData) \<longrightarrow> \<not> sublist ''<h2>Projects</h2>'' html)
       \<and> (\<not> truthy (lookup ''skills'' resumeData) \<longrightarrow>
            \<not> sublist ''<h2>Skills</h2>'' html \<and> \<not> sublist ''<div class="skills-section">'' html \<and>
            \<not> sublist ''<div class="skill-category">'' html)\<close>
proof -
  let ?r = "template_html h resumeData (case atsMode options of Some b \<Rightarrow> b | None \<Rightarrow> False)"
  have r: "?r = Inr html" using generateHTML_result(1) [OF assms(1)] assms(2) by simp
  show ?thesis
  proof (intro conjI impI)
    assume a: "\<not> truthy (lookup ''education'' resumeData)"
    note c = template_html_education [OF a, THEN clear_of_sublist, OF r]
    show \<open>\<not> sublist ''<h2>Education</h2>'' html\<close> by (rule c) (simp_all add: education_marks_def)
    show \<open>\<not> sublist ''<div class="education-entry">'' html\<close> by (rule c) (simp_all add: education_marks_def)
  next
    assume a: "\<not> truthy (lookup ''projects'' resumeData)"
    note c = template_html_projects [OF a, THEN clear_of_sublist, OF r]
    show \<open>\<not> sublist ''<h2>Projects</h2>'' html\<close> by (rule c) (simp_all add: projects_marks_def)
  next
    assume a: "\<not> truthy (lookup ''skills'' resumeData)"
    note c = template_html_skills [OF a, THEN clear_of_sublist, OF r]
    show \<open>\<not> sublist ''<h2>Skills</h2>'' html\<close> by (rule c) (simp_all add: skills_marks_def)
    show \<open>\<not> sublist ''<div class="skills-section">'' html\<close> by (rule c) (simp_all add: skills_marks_def)
    show \<open>\<not> sublist ''<div class="skill-category">'' html\<close> by (rule c) (simp_all add: skills_marks_def)
  qed
qed


text \<open>The document of the specification's example.\<close>

definition default_options :: PDFOptions where
  "default_options = \<lparr>outputFile = None, template_opt = None, atsMode = None, dateFormat = None,
     deterministic = None, deterministicConfig = None\<rparr>"

definition utc_host :: host where
  "utc_host = \<lparr>tz_minutes = 0, iso_month_year = (\<lambda>_. ''Invalid Date''), iso_year = (\<lambda>_. []),
     run_other = (\<lambda>_ _ _. Inr [])\<rparr>"

definition john_doe :: json where
  "john_doe = JObj
     [(''basics'', JObj [(''name'', JStr ''John Doe''), (''email'', JStr ''john@example.com'')]),
      (''work'', JArr [JObj [(''name'', JStr ''Acme''), (''position'', JStr ''Engineer''),
                             (''startDate'', JStr ''2020-01-01'')]])]"

lemma empty_cache_of_resume: "cache_of_resume templateCache"
  by (simp add: cache_of_resume_def templateCache_def)

lemma john_doe_dates: "dates_are_text john_doe"
  by (simp add: dates_are_text_def john_doe_def lookup_def elements_def text_or_absent_def)

theorem generateHTML_template_fallback_witness:
  "cache_of_resume templateCache \<and> dates_are_text john_doe \<and>
   fst (generateHTML utc_host 0 0 john_doe (default_options\<lparr>template_opt := Some ''no-such-template''\<rparr>)
          templateCache) = template_html utc_host john_doe False \<and>
   (\<exists>html. fst (generateHTML utc_host 0 0 john_doe
                   (default_options\<lparr>template_opt := Some ''no-such-template''\<rparr>) templateCache) = Inr html)"
proof -
  have a: "(case atsMode default_options of Some b \<Rightarrow> b | None \<Rightarrow> False) = False"
    by (simp add: default_options_def)
  note t = generateHTML_template_fallback [OF empty_cache_of_resume,
      where h = utc_host and now = 0 and now' = 0 and resumeData = john_doe
        and options = default_options and name = "Some ''no-such-template''", unfolded a]
  show ?thesis using t john_doe_dates empty_cache_of_resume by blast
qed

theorem generateHTML_omits_absent_sections_witness:
  \<open>cache_of_resume templateCache \<and>
   (\<exists>html. fst (generateHTML utc_host 0 0 john_doe default_options templateCache) = Inr html \<and>
      \<not> sublist ''<h2>Education</h2>'' html \<and> \<not> sublist ''<div class="education-entry">'' html \<and>
      \<not> sublist ''<h2>Projects</h2>'' html \<and> \<not> sublist ''<h2>Skills</h2>'' html \<and>
      \<not> sublist ''<div class="skills-section">'' html \<and> \<not> sublist ''<div class="skill-category">'' html)\<close>
proof -
  have "ok (fst (generateHTML utc_host 0 0 john_doe default_options templateCache))"
    using generateHTML_result(1) [OF empty_cache_of_resume] ok_template_html [OF john_doe_dates]
    by simp
  then obtain html where
    h: "fst (generateHTML utc_host 0 0 john_doe default_options templateCache) = Inr html"
    by (auto simp: ok_def)
  have absent: "\<not> truthy (lookup ''education'' john_doe)" "\<not> truthy (lookup ''projects'' john_doe)"
    "\<not> truthy (lookup ''skills'' john_doe)"
    by (simp_all add: john_doe_def lookup_def truthy_def)
  show ?thesis
    using generateHTML_omits_absent_sections [OF empty_cache_of_resume h] absent h
      empty_cache_of_resume by blast
qed

subsection \<open>formatDate on dates of the first century\<close>

text \<open>
  C3, evaluated. For the date-only text \<open>0021-03-15\<close>, \<open>formatDate\<close> gives "March 1921" in
  New York (UTC-5), in UTC and in Tokyo (UTC+9): \<open>new Date(21, 2, 15)\<close> reads a year from 0
  to 99 as 1900 plus it. \<open>formatYear\<close> gives "21" for the same text.
\<close>

theorem formatDate_two_digit_year:
  "formatDate (utc_host\<lparr>tz_minutes := - 300\<rparr>) (Some (JStr ''0021-03-15'')) = Inr ''March 1921'' \<and>
   formatDate utc_host (Some (JStr ''0021-03-15'')) = Inr ''March 1921'' \<and>
   formatDate (utc_host\<lparr>tz_minutes := 540\<rparr>) (Some (JStr ''0021-03-15'')) = Inr ''March 1921'' \<and>
   formatYear utc_host (Some (JStr ''0021-03-15'')) = Inr ''21''"
  by code_simp

text \<open>An absent or empty date is "Present"; the date of the specification's example is
  "March 2021" in every zone.\<close>

lemma formatDate_absent: "formatDate h None = Inr ''Present''" "formatDate h (Some (JStr [])) = Inr ''Present''"
  by (simp_all add: formatDate_def)

lemma formatDate_2021_03_15:
  assumes "\<bar>tz_minutes h\<bar> \<le> 24 * 60"
  shows "formatDate h (Some (JStr ''2021-03-15'')) = Inr ''March 2021''"
proof -
  have p: "map js_Number (split_on CHR ''-'' ''2021-03-15'') = [Some 2021, Some 3, Some 15]"
    by code_simp
  have d: "days_from_civil 2021 3 1 + 15 - 1 = 18701" by code_simp
  have t: "new_Date (tz_minutes h) 2021 2 15 = Some (18701 * msPerDay - tz_minutes h * 60000)"
    using assms d by (simp add: new_Date_def Let_def msPerDay_def)
  have c: "civil_from_days 18701 = (2021, 3, 15)" by code_simp
  have m: "month_name 3 @ '' '' @ show_int 2021 = ''March 2021''" by code_simp
  have "toLocaleDateString (tz_minutes h) (18701 * msPerDay - tz_minutes h * 60000) = ''March 2021''"
    using c m by (simp add: toLocaleDateString_def msPerDay_def)
  then show ?thesis using p t by (simp add: formatDate_def Let_def)
qed

section \<open>Validation (validators/resume-validator.ts, schemas/resume-schema.ts)\<close>

text \<open>
  The JSON Schema keywords the schema of the data uses: \<open>type\<close> (string, array, object),
  \<open>minLength\<close>, \<open>format\<close>, \<open>items\<close>, \<open>required\<close> and \<open>properties\<close>. Properties the schema
  does not name are allowed.
\<close>

datatype schema =
  String_schema (minLength: "nat option") (format: "string option")
| Array_schema (items: schema)
| Object_schema (required: "string list") (properties: "(string \<times> schema) list")

definition string_s :: schema where
  "string_s = String_schema None None"

definition string_min :: "nat \<Rightarrow> schema" where
  "string_min n = String_schema (Some n) None"

definition string_as :: "string \<Rightarrow> schema" where
  "string_as f = String_schema None (Some f)"

definition array_of :: "schema \<Rightarrow> schema" where
  "array_of s = Array_schema s"

definition object_of :: "string list \<Rightarrow> (string \<times> schema) list \<Rightarrow> schema" where
  "object_of req props = Object_schema req props"

definition resumeSchema :: schema where
  "resumeSchema =
     object_of [''basics'', ''work'']
       [(''basics'', object_of [''name'', ''email'']
           [(''name'', string_min 1),
            (''label'', string_s),
            (''email'', string_as ''email''),
            (''phone'', string_s),
            (''url'', string_as ''uri''),
            (''summary'', string_s),
            (''location'', object_of []
               [(''address'', string_s),
                (''postalCode'', string_s),
                (''city'', string_s),
                (''countryCode'', string_s),
                (''region'', string_s)]),
            (''profiles'', array_of
               (object_of []
                  [(''network'', string_s),
                   (''username'', string_s),
                   (''url'', string_as ''uri'')]))]),
        (''work'', array_of
           (object_of [''name'', ''position'', ''startDate'']
              [(''name'', string_min 1),
               (''position'', string_min 1),
               (''url'', string_as ''uri''),
               (''startDate'', string_as ''date''),
               (''endDate'', string_as ''date''),
               (''summary'', string_s),
               (''highlights'', array_of
                  (string_s)),
               (''location'', string_s)])),
        (''education'', array_of
           (object_of []
              [(''institution'', string_s),
               (''area'', string_s),
               (''studyType'', string_s),
               (''startDate'', string_as ''date''),
               (''endDate'', string_as ''date''),
               (''gpa'', string_s),
               (''courses'', array_of
                  (string_s))])),
        (''skills'', array_of
           (object_of []
              [(''name'', string_s),
               (''level'', string_s),
               (''keywords'', array_of
                  (string_s))])),
        (''projects'', array_of
           (object_of []
              [(''name'', string_s),
               (''description'', string_s),
               (''highlights'', array_of
                  (string_s)),
               (''keywords'', array_of
                  (string_s)),
               (''startDate'', string_as ''date''),
               (''endDate'', string_as ''date''),
               (''url'', string_as ''uri'')])),
        (''awards'', array_of
           (object_of []
              [(''title'', string_s),
               (''date'', string_as ''date''),
               (''awarder'', string_s),
               (''summary'', string_s)])),
        (''certifications'', array_of
           (object_of []
              [(''name'', string_s),
               (''date'', string_as ''date''),
               (''issuer'', string_s),
               (''url'', string_as ''uri'')])),
        (''publications'', array_of
           (object_of []
              [(''name'', string_s),
               (''publisher'', string_s),
               (''releaseDate'', string_as ''date''),
               (''url'', string_as ''uri''),
               (''summary'', string_s)])),
        (''languages'', array_of
           (object_of []
              [(''language'', string_s),
               (''fluency'', string_s)])),
        (''interests'', array_of
           (object_of []
              [(''name'', string_s),
               (''keywords'', array_of
                  (string_s))])),
        (''references'', array_of
           (object_of []
              [(''name'', string_s),
               (''reference'', string_s)]))]"

text \<open>The length \<open>minLength\<close> counts: code points, that is the bytes of the UTF-8 text
  that do not continue a character.\<close>

definition code_points :: "string \<Rightarrow> nat" where
  "code_points s = length (filter (\<lambda>c. \<not> (128 \<le> (of_char c :: nat) \<and> (of_char c :: nat) < 192)) s)"

text \<open>
  What the compiled schema accepts. \<open>fmt name s\<close> says whether the text \<open>s\<close> has the format
  \<open>name\<close> (email, uri, date), as the formats library decides it.
\<close>

fun valid :: "(string \<Rightarrow> string \<Rightarrow> bool) \<Rightarrow> schema \<Rightarrow> json \<Rightarrow> bool" where
  "valid fmt (String_schema minlen fmtname) v =
     (case v of
        JStr s \<Rightarrow> (case minlen of None \<Rightarrow> True | Some n \<Rightarrow> n \<le> code_points s) \<and>
                  (case fmtname of None \<Rightarrow> True | Some f \<Rightarrow> fmt f s)
      | _ \<Rightarrow> False)"
| "valid fmt (Array_schema item) v =
     (case v of JArr xs \<Rightarrow> list_all (valid fmt item) xs | _ \<Rightarrow> False)"
| "valid fmt (Object_schema req props) v =
     (case v of
        JObj kvs \<Rightarrow>
          list_all (\<lambda>k. map_of kvs k \<noteq> None) req \<and>
          list_all (\<lambda>p. case map_of kvs (fst p) of None \<Rightarrow> True | Some x \<Rightarrow> valid fmt (snd p) x) props
      | _ \<Rightarrow> False)"

datatype generator_error = ValidationError | FileSystemError string | PDFGenerationError string

text \<open>\<open>validateResumeData\<close> returns nothing or throws a \<open>ValidationError\<close> whose message lists
  the violations.\<close>

definition validateResumeData :: "(string \<Rightarrow> string \<Rightarrow> bool) \<Rightarrow> json \<Rightarrow> generator_error option" where
  "validateResumeData fmt data = (if valid fmt resumeSchema data then None else Some ValidationError)"

section \<open>PDF generator (generators/pdf-generator.ts)\<close>

text \<open>
  What \<open>generatePDF\<close> works on: the module singletons (browser pool, template cache), the
  Playwright world and the files. What it takes from outside: the formats library, what
  Chromium prints for an HTML text, and whether each file-system or page call rejects,
  and with what error.
\<close>

record session =
  pool :: BrowserPool
  browsers :: playwright
  templates :: "template_source TemplateCache"
  files :: "(string \<times> string) list"

record platform =
  formats :: "string \<Rightarrow> string \<Rightarrow> bool"
  print_pdf :: "string \<Rightarrow> string"
  mkdir_error :: "js_error option"
  setContent_error :: "js_error option"
  pdf_error :: "js_error option"
  readFile_error :: "js_error option"
  writeFile_error :: "js_error option"

text \<open>\<open>ensureDeterministicPDF\<close> on the file: with both flags off nothing is read or written.\<close>

definition ensureDeterministicPDF_file ::
  "platform \<Rightarrow> string \<Rightarrow> DeterministicConfig \<Rightarrow> (string \<times> string) list
     \<Rightarrow> js_error option \<times> (string \<times> string) list" where
  "ensureDeterministicPDF_file px pdfPath config fs =
     (if \<not> removeTimestamps config \<and> \<not> removeVariableMetadata config then (None, fs)
      else
        (case readFile_error px of
           Some e \<Rightarrow> (Some e, fs)
         | None \<Rightarrow>
             (case map_of fs pdfPath of
                None \<Rightarrow> (Some (Error (Some ''ENOENT'') ''ENOENT: no such file or directory''), fs)
              | Some pdfString \<Rightarrow>
                  (case writeFile_error px of
                     Some e \<Rightarrow> (Some e, fs)
                   | None \<Rightarrow> (None, map_set pdfPath (ensureDeterministicPDF config pdfString) fs)))))"

definition output_path :: "PDFOptions \<Rightarrow> string" where
  "output_path options =
     (case outputFile options of Some p \<Rightarrow> if p = [] then ''resume.pdf'' else p | None \<Rightarrow> ''resume.pdf'')"

text \<open>
  The body of the \<open>try\<close>: the first step that throws ends it. The result is the error or
  the output path, the session afterwards, and the page to release if one was acquired.
\<close>

definition try_block ::
  "host \<Rightarrow> platform \<Rightarrow> int \<Rightarrow> json \<Rightarrow> PDFOptions \<Rightarrow> session
     \<Rightarrow> (js_error + string) \<times> session \<times> nat option" where
  "try_block h px now resumeData options s =
     (let outputPath = output_path options
      in case mkdir_error px of
           Some e \<Rightarrow> (Inl e, s, None)
         | None \<Rightarrow>
             (case generateHTML h now now resumeData options (templates s) of
                (Inl e, tc) \<Rightarrow> (Inl e, s\<lparr>templates := tc\<rparr>, None)
              | (Inr htmlContent, tc) \<Rightarrow>
                  (case getBrowserPage now (pool s) (browsers s) of
                     (Inl e, p, w) \<Rightarrow> (Inl e, s\<lparr>pool := p, browsers := w, templates := tc\<rparr>, None)
                   | (Inr page, p, w) \<Rightarrow>
                       (let s1 = s\<lparr>pool := p, browsers := w, templates := tc\<rparr>
                        in case setContent_error px of
                             Some e \<Rightarrow> (Inl e, s1, Some page)
                           | None \<Rightarrow>
                               (case pdf_error px of
                                  Some e \<Rightarrow> (Inl e, s1, Some page)
                                | None \<Rightarrow>
                                    (let s2 = s1\<lparr>files := map_set outputPath (print_pdf px htmlContent) (files s1)\<rparr>
                                     in if deterministic options \<noteq> Some False then
                                          (case ensureDeterministicPDF_file px outputPath
                                                  (case deterministicConfig options of
                                                     Some config \<Rightarrow> config
                                                   | None \<Rightarrow> DEFAULT_DETERMINISTIC_CONFIG)
                                                  (files s2) of
                                             (Some e, fs) \<Rightarrow> (Inl e, s2\<lparr>files := fs\<rparr>, Some page)
                                           | (None, fs) \<Rightarrow> (Inr outputPath, s2\<lparr>files := fs\<rparr>, Some page))
                                        else (Inr outputPath, s2, Some page)))))))"

text \<open>The \<open>catch\<close>: what the caller sees for an error thrown in the \<open>try\<close>.\<close>

definition catch_error :: "string \<Rightarrow> js_error \<Rightarrow> generator_error" where
  "catch_error outputPath error =
     (if code error = Some ''ENOENT'' \<or> code error = Some ''EACCES''
      then FileSystemError (''Cannot write to output path: '' @ outputPath)
      else PDFGenerationError (''Failed to generate PDF: '' @ message error))"

text \<open>
  The data is validated first, outside the \<open>try\<close>. The \<open>finally\<close> releases the page, if
  one was acquired.
\<close>

definition generatePDF ::
  "host \<Rightarrow> platform \<Rightarrow> int \<Rightarrow> json \<Rightarrow> PDFOptions \<Rightarrow> session \<Rightarrow> (generator_error + string) \<times> session" where
  "generatePDF h px now resumeData options s =
     (case validateResumeData (formats px) resumeData of
        Some e \<Rightarrow> (Inl e, s)
      | None \<Rightarrow>
          (case try_block h px now resumeData options s of
             (r, s1, page) \<Rightarrow>
               (let s2 = (case page of
                            Some p \<Rightarrow> s1\<lparr>browsers := releasePage p (browsers s1)\<rparr>
                          | None \<Rightarrow> s1)
                in case r of
                     Inl error \<Rightarrow> (Inl (catch_error (output_path options) error), s2)
                   | Inr outputPath \<Rightarrow> (Inr outputPath, s2))))"

definition new_session :: session where
  "new_session = \<lparr>pool = browserPool 0, browsers = fresh_playwright, templates = templateCache, files = []\<rparr>"

definition quiet_platform :: platform where
  "quiet_platform = \<lparr>formats = (\<lambda>name s. True), print_pdf = (\<lambda>html. sample_pdf),
     mkdir_error = None, setContent_error = None, pdf_error = None, readFile_error = None,
     writeFile_error = None\<rparr>"


subsection \<open>Which error the caller sees\<close>


lemma catch_error_not_validation: "catch_error p e \<noteq> ValidationError"
  by (simp add: catch_error_def)

text \<open>
  C5, as the code has it. For data that passes validation, whichever step of the \<open>try\<close>
  throws first (creating the directory, rendering, acquiring the page, setting the
  content, printing, reading or writing the file for normalization): \<open>generatePDF\<close> raises
  \<open>FileSystemError\<close> with the message "Cannot write to output path: " and the output path
  exactly when the error's code is ENOENT or EACCES, and \<open>PDFGenerationError\<close> with "Failed
  to generate PDF: " and the error's message for every other error.
\<close>

theorem generatePDF_error_mapping:
  assumes "validateResumeData (formats px) resumeData = None"
  shows "fst (generatePDF h px now resumeData options s) =
     (case fst (try_block h px now resumeData options s) of
        Inr outputPath \<Rightarrow> Inr outputPath
      | Inl error \<Rightarrow>
          if code error = Some ''ENOENT'' \<or> code error = Some ''EACCES''
          then Inl (FileSystemError (''Cannot write to output path: '' @ output_path options))
          else Inl (PDFGenerationError (''Failed to generate PDF: '' @ message error)))"
  using assms
  by (simp add: generatePDF_def catch_error_def Let_def split: prod.splits sum.splits)

definition no_space :: js_error where
  "no_space = Error (Some ''ENOSPC'') ''ENOSPC: no space left on device, write''"

definition no_access :: js_error where
  "no_access = Error (Some ''EACCES'') ''EACCES: permission denied, open'' "

lemma john_doe_valid: "validateResumeData (formats quiet_platform) john_doe = None"
  by code_simp

theorem generatePDF_error_mapping_witness:
  "validateResumeData (formats (quiet_platform\<lparr>pdf_error := Some no_access\<rparr>)) john_doe = None \<and>
   fst (generatePDF utc_host (quiet_platform\<lparr>pdf_error := Some no_access\<rparr>) 0 john_doe default_options
          new_session) = Inl (FileSystemError ''Cannot write to output path: resume.pdf'')"
proof -
  have v: "validateResumeData (formats (quiet_platform\<lparr>pdf_error := Some no_access\<rparr>)) john_doe = None"
    by code_simp
  have t: "fst (try_block utc_host (quiet_platform\<lparr>pdf_error := Some no_access\<rparr>) 0 john_doe
      default_options new_session) = Inl no_access"
    by code_simp
  have p: "output_path default_options = ''resume.pdf''" by code_simp
  show ?thesis
    using generatePDF_error_mapping [OF v, of utc_host 0 default_options new_session, unfolded t p] v
    by (simp add: no_access_def)
qed

text \<open>Disk exhaustion while the PDF is written (ENOSPC) is not among the two codes: the
  caller sees a \<open>PDFGenerationError\<close>.\<close>

theorem generatePDF_error_mapping_counterexample:
  "fst (generatePDF utc_host (quiet_platform\<lparr>pdf_error := Some no_space\<rparr>) 0 john_doe default_options
          new_session) =
     Inl (PDFGenerationError ''Failed to generate PDF: ENOSPC: no space left on device, write'')"
  by code_simp

text \<open>
  C8, as the code has it. \<open>generatePDF\<close> validates the data itself, before anything else:
  it fails with \<open>ValidationError\<close>, and leaves the session as it was, exactly when the
  data does not meet the schema; for data that meets the schema it never fails with
  \<open>ValidationError\<close>.
\<close>

theorem generatePDF_validates:
  "(if valid (formats px) resumeSchema resumeData
    then fst (generatePDF h px now resumeData options s) \<noteq> Inl ValidationError
    else generatePDF h px now resumeData options s = (Inl ValidationError, s))"
  by (simp add: generatePDF_def validateResumeData_def catch_error_not_validation Let_def
      split: prod.splits sum.splits)

text \<open>A document with an identity name and a well-formed (empty) list of work entries,
  but no e-mail address: \<open>generatePDF\<close> rejects it with a validation error.\<close>

theorem generatePDF_validates_counterexample:
  "generatePDF utc_host quiet_platform 0
     (JObj [(''basics'', JObj [(''name'', JStr ''John Doe'')]), (''work'', JArr [])])
     default_options new_session = (Inl ValidationError, new_session)"
  by code_simp


text \<open>After a successful run with the default options, the file holds the printed PDF
  normalized with the default configuration.\<close>

lemma map_of_map_set: "map_of (map_set k v m) k = Some v"
  by (induction m) auto

lemma generatePDF_normalises:
  assumes "fst (generatePDF h px now resumeData options s) = Inr p"
    and "deterministic options \<noteq> Some False" and "deterministicConfig options = None"
  shows "\<exists>html. map_of (files (snd (generatePDF h px now resumeData options s))) p =
           Some (ensureDeterministicPDF DEFAULT_DETERMINISTIC_CONFIG (print_pdf px html))"
  using assms
  by (auto simp: generatePDF_def try_block_def ensureDeterministicPDF_file_def Let_def
      DEFAULT_DETERMINISTIC_CONFIG_def map_of_map_set
      split: option.splits prod.splits sum.splits if_splits)

end
